theory Spec2Isabelle
  imports Complex_Main "HOL-Library.Multiset"
begin

section \<open>The digit sketchpad of \<open>drawingapp.py\<close>\<close>

text \<open>
  The development follows \<open>class DrawingApp\<close>. Tk delivers pointer coordinates as
  integers (\<open>event.x\<close>, \<open>event.y\<close>); indices and 8-bit image samples are integers as
  well. Python floats and NumPy float32/float64 values are represented by the real
  numbers they stand for, and arithmetic on them is exact: the rounding of a float
  operation, and of a value stored into the float32 array \<open>self.pixels\<close>, is left out.
  The integer results of the program do not depend on it: cell centres and pointer
  offsets are integers, so the test \<open>dist <= brush_radius\<close> compares
  \<open>dx\<^sup>2 + dy\<^sup>2\<close> with 225, and the centre of mass is a quotient of two integer sums
  below \<open>2\<^sup>5\<^sup>3\<close>.

  The network (\<open>self.net.feedforward\<close>) and Pillow's \<open>GaussianBlur\<close> are outside the
  program; they are parameters \<open>net\<close> and \<open>blur\<close> of the operations that call them.
\<close>

subsection \<open>Constants of \<open>__init__\<close>\<close>

definition rows :: int where "rows = 28"
definition cols :: int where "cols = 28"
definition cell_size :: int where "cell_size = 10"
definition canvas_width :: int where "canvas_width = cols * cell_size"
definition canvas_height :: int where "canvas_height = rows * cell_size"
definition brush_radius :: real where "brush_radius = real_of_int cell_size * 1.5"

subsection \<open>Python and NumPy primitives\<close>

datatype error = IndexError | ValueError | ZeroDivisionError | TypeError

definition newline :: char where "newline = CHR 0x0A"

text \<open>\<open>int(x)\<close> on a float truncates towards zero.\<close>

definition py_int :: "real \<Rightarrow> int" where
  "py_int x = (if 0 \<le> x then \<lfloor>x\<rfloor> else \<lceil>x\<rceil>)"

text \<open>\<open>math.hypot\<close>.\<close>

definition hypot :: "real \<Rightarrow> real \<Rightarrow> real" where
  "hypot a b = sqrt (a * a + b * b)"

text \<open>Decimal and hexadecimal digits of a natural number, most significant first.\<close>

fun str_nat :: "nat \<Rightarrow> string" where
  "str_nat n = (if n < 10 then [''0123456789'' ! n]
                else str_nat (n div 10) @ [''0123456789'' ! (n mod 10)])"

fun hex_nat :: "nat \<Rightarrow> string" where
  "hex_nat n = (if n < 16 then [''0123456789abcdef'' ! n]
                else hex_nat (n div 16) @ [''0123456789abcdef'' ! (n mod 16)])"

declare str_nat.simps [simp del] hex_nat.simps [simp del]

text \<open>Left padding to a minimum width, as a format width does for numbers.\<close>

definition lpad :: "nat \<Rightarrow> char \<Rightarrow> string \<Rightarrow> string" where
  "lpad w ch s = replicate (w - length s) ch @ s"

text \<open>\<open>f"{d}"\<close> for an integer.\<close>

definition str_int :: "int \<Rightarrow> string" where
  "str_int i = (if i < 0 then ''-'' @ str_nat (nat (- i)) else str_nat (nat i))"

text \<open>\<open>f"{gray:02x}"\<close>: lower-case hexadecimal, zero-padded to two characters.\<close>

definition fmt_02x :: "int \<Rightarrow> string" where
  "fmt_02x g = (if g < 0 then lpad 2 CHR ''0'' (''-'' @ hex_nat (nat (- g)))
                else lpad 2 CHR ''0'' (hex_nat (nat g)))"

text \<open>
  Rounding to the nearest integer, ties to even: the rule of the \<open>f\<close> presentation
  type, applied to the exact value of the number.
\<close>

definition round_half_even :: "real \<Rightarrow> int" where
  "round_half_even x =
     (let f = \<lfloor>x\<rfloor>; d = x - real_of_int f
      in if d < 1/2 then f else if 1/2 < d then f + 1
         else if even f then f else f + 1)"

text \<open>\<open>f"{x:.2f}"\<close>: sign, integer part, point, two decimals.\<close>

definition fmt_2f :: "real \<Rightarrow> string" where
  "fmt_2f x =
     (let n = nat (round_half_even (\<bar>x\<bar> * 100));
          frac = lpad 2 CHR ''0'' (str_nat (n mod 100))
      in (if x < 0 then ''-'' else '''') @ str_nat (n div 100) @ ''.'' @ frac)"

text \<open>\<open>f"{x:6.2f}"\<close>: the same, right-aligned in a field of width six.\<close>

definition fmt_6_2f :: "real \<Rightarrow> string" where
  "fmt_6_2f x = lpad 6 CHR '' '' (fmt_2f x)"

text \<open>
  \<open>np.argsort\<close>: the indices of the array in ascending order of value. NumPy's default
  sort does not promise an order among equal values; the model takes the order of
  insertion sort (\<open>sort_key\<close>), which keeps equal values in index order.
\<close>

definition argsort :: "real list \<Rightarrow> nat list" where
  "argsort xs = sort_key (\<lambda>i. xs ! i) [0..<length xs]"

subsection \<open>The results panel\<close>

text \<open>The ten lines of the branch for an empty drawing, \<open>f"{d}:    0.00%\n"\<close>.\<close>

definition zero_line :: "int \<Rightarrow> string" where
  "zero_line d = str_int d @ '':    0.00%'' @ [newline]"

definition zero_lines :: "string list" where
  "zero_lines = map zero_line [0..9]"

text \<open>\<open>ranking = np.argsort(probs)[::-1]\<close> and one line per ranked digit.\<close>

definition ranking :: "real list \<Rightarrow> nat list" where
  "ranking probs = rev (argsort probs)"

definition ranked_line :: "real list \<Rightarrow> nat \<Rightarrow> string" where
  "ranked_line probs d =
     (let pct = probs ! d * 100
      in str_int (int d) @ '': '' @ fmt_6_2f pct @ ''%'' @ [newline])"

definition ranked_lines :: "real list \<Rightarrow> string list" where
  "ranked_lines probs = map (ranked_line probs) (ranking probs)"

subsection \<open>Arrays\<close>

text \<open>
  A two-dimensional array is the list of its rows. An index \<open>i\<close> along an axis of
  length \<open>n\<close> is valid when \<open>-n \<le> i < n\<close>, a negative one counting from the end; any
  other index raises \<open>IndexError\<close>.
\<close>

type_synonym 'a grid = "'a list list"

definition np_index :: "nat \<Rightarrow> int \<Rightarrow> error + nat" where
  "np_index n i =
     (if 0 \<le> i \<and> i < int n then Inr (nat i)
      else if - int n \<le> i \<and> i < 0 then Inr (nat (i + int n))
      else Inl IndexError)"

definition grid_get :: "'a grid \<Rightarrow> int \<Rightarrow> int \<Rightarrow> error + 'a" where
  "grid_get g r c =
     (case np_index (length g) r of
        Inl e \<Rightarrow> Inl e
      | Inr i \<Rightarrow>
          (case np_index (length (g ! i)) c of
             Inl e \<Rightarrow> Inl e
           | Inr j \<Rightarrow> Inr (g ! i ! j)))"

definition grid_set :: "'a grid \<Rightarrow> int \<Rightarrow> int \<Rightarrow> 'a \<Rightarrow> error + 'a grid" where
  "grid_set g r c v =
     (case np_index (length g) r of
        Inl e \<Rightarrow> Inl e
      | Inr i \<Rightarrow>
          (case np_index (length (g ! i)) c of
             Inl e \<Rightarrow> Inl e
           | Inr j \<Rightarrow> Inr (g[i := (g ! i)[j := v]])))"

text \<open>A \<open>for\<close> loop whose body may raise: the first error ends the loop.\<close>

fun for_each :: "'a list \<Rightarrow> ('a \<Rightarrow> 's \<Rightarrow> error + 's) \<Rightarrow> 's \<Rightarrow> error + 's" where
  "for_each [] body s = Inr s"
| "for_each (x # xs) body s =
     (case body x s of Inl e \<Rightarrow> Inl e | Inr s' \<Rightarrow> for_each xs body s')"

text \<open>\<open>np.any\<close>, \<open>min()\<close>, \<open>max()\<close> (an empty array has neither) and \<open>reshape((784, 1))\<close>.\<close>

definition np_any :: "real grid \<Rightarrow> bool" where
  "np_any g = list_ex (\<lambda>v. v \<noteq> 0) (concat g)"

definition np_min :: "real list \<Rightarrow> error + real" where
  "np_min xs = (case xs of [] \<Rightarrow> Inl ValueError | x # ys \<Rightarrow> Inr (fold min ys x))"

definition np_max :: "real list \<Rightarrow> error + real" where
  "np_max xs = (case xs of [] \<Rightarrow> Inl ValueError | x # ys \<Rightarrow> Inr (fold max ys x))"

definition reshape_784 :: "real grid \<Rightarrow> error + real list" where
  "reshape_784 g = (if length (concat g) = 784 then Inr (concat g) else Inl ValueError)"

text \<open>\<open>astype(np.uint8)\<close>: truncation, kept in eight bits.\<close>

definition to_uint8 :: "real \<Rightarrow> nat" where
  "to_uint8 v = nat (py_int v mod 256)"

text \<open>\<open>a // b\<close> on floats: the floor of the quotient, as a float.\<close>

definition floordiv :: "real \<Rightarrow> real \<Rightarrow> real" where
  "floordiv a b = real_of_int \<lfloor>a / b\<rfloor>"

subsection \<open>The application state\<close>

text \<open>
  \<open>pixels\<close> is \<open>self.pixels\<close>; \<open>cell_fill\<close> is the fill colour of the canvas rectangle
  \<open>self.cell_ids[r, c]\<close>; \<open>results_text\<close> is the content of the text panel;
  \<open>net_inputs\<close> records the vectors handed to \<open>self.net.feedforward\<close>, oldest first:
  it is the trace of the calls to the network, not a field of the class.
\<close>

record app =
  pixels :: "real grid"
  cell_fill :: "string grid"
  results_text :: string
  drawing :: bool
  net_inputs :: "real list list"

subsection \<open>Preprocessing\<close>

text \<open>\<open>np.nonzero(img)\<close>: the coordinates of the nonzero samples, row by row.\<close>

definition nonzero_coords :: "nat grid \<Rightarrow> (nat \<times> nat) list" where
  "nonzero_coords img =
     concat (map (\<lambda>r. map (\<lambda>c. (r, c)) (filter (\<lambda>c. img ! r ! c \<noteq> 0) [0..<length (img ! r)]))
                 [0..<length img])"

text \<open>\<open>np.average(a, weights=w)\<close>; weights that sum to zero raise \<open>ZeroDivisionError\<close>.\<close>

definition np_average :: "real list \<Rightarrow> real list \<Rightarrow> error + real" where
  "np_average a w =
     (if sum_list w = 0 then Inl ZeroDivisionError
      else Inr (sum_list (map2 (*) a w) / sum_list w))"

text \<open>
  \<open>Image.transform(size, Image.AFFINE, (a, b, c, d, e, f), fillcolor=0)\<close> with the
  default nearest-neighbour resampling. Pillow's contract: for each pixel \<open>(x, y)\<close> of
  the output, the value is taken from position \<open>(a x + b y + c, d x + e y + f)\<close> of the
  input, evaluated at the pixel centre and rounded down; a position outside the input
  gives the fill colour. \<open>x\<close> is the column and \<open>y\<close> the row.
\<close>

definition image_width :: "'a grid \<Rightarrow> nat" where
  "image_width img = (case img of [] \<Rightarrow> 0 | row # _ \<Rightarrow> length row)"

definition sample_or_fill :: "nat grid \<Rightarrow> int \<Rightarrow> int \<Rightarrow> nat" where
  "sample_or_fill img xin yin =
     (if 0 \<le> yin \<and> yin < int (length img) \<and> 0 \<le> xin \<and> xin < int (image_width img)
      then img ! nat yin ! nat xin else 0)"

definition transform_affine ::
  "nat grid \<Rightarrow> real \<times> real \<times> real \<times> real \<times> real \<times> real \<Rightarrow> nat grid" where
  "transform_affine img data =
     (case data of (a, b, c, d, e, f) \<Rightarrow>
        map (\<lambda>y. map (\<lambda>x. sample_or_fill img
                             \<lfloor>a * (real x + 1/2) + b * (real y + 1/2) + c\<rfloor>
                             \<lfloor>d * (real x + 1/2) + e * (real y + 1/2) + f\<rfloor>)
                      [0..<image_width img])
            [0..<length img])"

text \<open>The centre-of-mass shift of \<open>_update_results\<close>.\<close>

definition center_shift :: "nat grid \<Rightarrow> error + (int \<times> int) option" where
  "center_shift img =
     (let coords = nonzero_coords img
      in if coords \<noteq> [] then
           let weights = map (\<lambda>(r, c). real (img ! r ! c)) coords
           in case np_average (map (\<lambda>(r, c). real r) coords) weights of
                Inl e \<Rightarrow> Inl e
              | Inr cy \<Rightarrow>
                  (case np_average (map (\<lambda>(r, c). real c) coords) weights of
                     Inl e \<Rightarrow> Inl e
                   | Inr cx \<Rightarrow>
                       let shift_y = py_int (real_of_int (rows div 2) - cy);
                           shift_x = py_int (real_of_int (cols div 2) - cx)
                       in Inr (Some (shift_x, shift_y)))
         else Inr None)"

definition recenter :: "nat grid \<Rightarrow> error + nat grid" where
  "recenter img =
     (case center_shift img of
        Inl e \<Rightarrow> Inl e
      | Inr (Some (shift_x, shift_y)) \<Rightarrow>
          Inr (transform_affine img (1, 0, real_of_int shift_x, 0, 1, real_of_int shift_y))
      | Inr None \<Rightarrow> Inr img)"

text \<open>The contrast stretch.\<close>

definition contrast_stretch :: "real grid \<Rightarrow> error + real grid" where
  "contrast_stretch np_img =
     (case np_min (concat np_img) of
        Inl e \<Rightarrow> Inl e
      | Inr mn \<Rightarrow>
          (case np_max (concat np_img) of
             Inl e \<Rightarrow> Inl e
           | Inr mx \<Rightarrow>
               Inr (if mx > mn then map (map (\<lambda>v. (v - mn) / (mx - mn))) np_img
                    else np_img)))"

subsection \<open>\<open>_update_results\<close>\<close>

text \<open>
  Every NumPy and Pillow operation of the pipeline (\<open>*\<close>, \<open>astype\<close>, \<open>transform\<close>,
  \<open>filter\<close>, \<open>np.array\<close>, \<open>-\<close>, \<open>/\<close>) returns a new array or image and writes to none of
  its arguments, so the pipeline is a composition of functions on values. The method
  assigns no attribute of \<open>self\<close>; its effects are the new panel text and the call to the
  network.
\<close>

definition update_results ::
  "(nat grid \<Rightarrow> nat grid) \<Rightarrow> (real list \<Rightarrow> real list) \<Rightarrow> app \<Rightarrow> error + app" where
  "update_results blur net s =
     (if \<not> np_any (pixels s) then Inr (s\<lparr>results_text := concat zero_lines\<rparr>)
      else
        let img = map (map (\<lambda>v. to_uint8 (v * 255))) (pixels s)
        in case recenter img of
             Inl e \<Rightarrow> Inl e
           | Inr pil_img \<Rightarrow>
               let pil_img = blur pil_img;
                   np_img = map (map real) pil_img
               in (case contrast_stretch np_img of
                     Inl e \<Rightarrow> Inl e
                   | Inr np_img \<Rightarrow>
                       (case reshape_784 np_img of
                          Inl e \<Rightarrow> Inl e
                        | Inr vect \<Rightarrow>
                            let probs = net vect
                            in Inr (s\<lparr>results_text := concat (ranked_lines probs),
                                      net_inputs := net_inputs s @ [vect]\<rparr>))))"

subsection \<open>\<open>_antialiased_paint\<close>\<close>

text \<open>The body of the inner loop, on the state and the \<open>updated\<close> flag.\<close>

definition paint_cell :: "int \<Rightarrow> int \<Rightarrow> int \<Rightarrow> int \<Rightarrow> app \<times> bool \<Rightarrow> error + app \<times> bool" where
  "paint_cell x y r c st =
     (case st of (s, updated) \<Rightarrow>
        let cx = (real_of_int c + 0.5) * real_of_int cell_size;
            cy = (real_of_int r + 0.5) * real_of_int cell_size;
            dist = hypot (cx - real_of_int x) (cy - real_of_int y)
        in if dist \<le> brush_radius then
             (case grid_get (pixels s) r c of
                Inl e \<Rightarrow> Inl e
              | Inr old \<Rightarrow>
                  let intensity = 1 - dist / brush_radius;
                      intensity = max old intensity
                  in if intensity > old then
                       (case grid_set (pixels s) r c intensity of
                          Inl e \<Rightarrow> Inl e
                        | Inr px \<Rightarrow>
                            let gray = py_int (255 * (1 - intensity));
                                color = ''#'' @ fmt_02x gray @ fmt_02x gray @ fmt_02x gray
                            in (case grid_set (cell_fill s) r c color of
                                  Inl e \<Rightarrow> Inl e
                                | Inr fl \<Rightarrow> Inr (s\<lparr>pixels := px, cell_fill := fl\<rparr>, True)))
                     else Inr (s, updated))
           else Inr (s, updated))"

definition r_min :: "int \<Rightarrow> int" where
  "r_min y = max 0 (py_int (floordiv (real_of_int y - brush_radius) (real_of_int cell_size)))"

definition r_max :: "int \<Rightarrow> int" where
  "r_max y = min (rows - 1) (py_int (floordiv (real_of_int y + brush_radius) (real_of_int cell_size)))"

definition c_min :: "int \<Rightarrow> int" where
  "c_min x = max 0 (py_int (floordiv (real_of_int x - brush_radius) (real_of_int cell_size)))"

definition c_max :: "int \<Rightarrow> int" where
  "c_max x = min (cols - 1) (py_int (floordiv (real_of_int x + brush_radius) (real_of_int cell_size)))"

text \<open>The two nested loops, \<open>range(r_min, r_max + 1)\<close> by \<open>range(c_min, c_max + 1)\<close>.\<close>

definition paint_loop :: "int \<Rightarrow> int \<Rightarrow> app \<Rightarrow> error + app \<times> bool" where
  "paint_loop x y s =
     for_each [r_min y..r_max y]
       (\<lambda>r. for_each [c_min x..c_max x] (\<lambda>c. paint_cell x y r c)) (s, False)"

definition antialiased_paint ::
  "(nat grid \<Rightarrow> nat grid) \<Rightarrow> (real list \<Rightarrow> real list) \<Rightarrow> app \<Rightarrow> int \<Rightarrow> int \<Rightarrow> error + app" where
  "antialiased_paint blur net s x y =
     (case paint_loop x y s of
        Inl e \<Rightarrow> Inl e
      | Inr (s', updated) \<Rightarrow> if updated then update_results blur net s' else Inr s')"

subsection \<open>\<open>clear\<close>, \<open>__init__\<close> and the event handlers\<close>

definition fill_white :: "int \<Rightarrow> int \<Rightarrow> app \<Rightarrow> error + app" where
  "fill_white r c s =
     (case grid_set (cell_fill s) r c ''white'' of
        Inl e \<Rightarrow> Inl e
      | Inr fl \<Rightarrow> Inr (s\<lparr>cell_fill := fl\<rparr>))"

definition clear ::
  "(nat grid \<Rightarrow> nat grid) \<Rightarrow> (real list \<Rightarrow> real list) \<Rightarrow> app \<Rightarrow> error + app" where
  "clear blur net s =
     (let s1 = s\<lparr>pixels := map (map (\<lambda>_. 0)) (pixels s)\<rparr>
      in case for_each [0..rows - 1] (\<lambda>r. for_each [0..cols - 1] (\<lambda>c. fill_white r c)) s1 of
           Inl e \<Rightarrow> Inl e
         | Inr s2 \<Rightarrow> update_results blur net s2)"

text \<open>The state built by \<open>__init__\<close>, before and after its closing \<open>_update_results\<close>.\<close>

definition blank_app :: app where
  "blank_app =
     \<lparr>pixels = replicate (nat rows) (replicate (nat cols) 0),
      cell_fill = replicate (nat rows) (replicate (nat cols) ''white''),
      results_text = [],
      drawing = False,
      net_inputs = []\<rparr>"

definition init_app ::
  "(nat grid \<Rightarrow> nat grid) \<Rightarrow> (real list \<Rightarrow> real list) \<Rightarrow> error + app" where
  "init_app blur net = update_results blur net blank_app"

datatype event = ButtonPress int int | Motion int int | ButtonRelease int int | ClearButton

fun handle ::
  "(nat grid \<Rightarrow> nat grid) \<Rightarrow> (real list \<Rightarrow> real list) \<Rightarrow> event \<Rightarrow> app \<Rightarrow> error + app" where
  "handle blur net (ButtonPress x y) s = antialiased_paint blur net (s\<lparr>drawing := True\<rparr>) x y"
| "handle blur net (Motion x y) s =
     (if drawing s then antialiased_paint blur net s x y else Inr s)"
| "handle blur net (ButtonRelease x y) s = Inr (s\<lparr>drawing := False\<rparr>)"
| "handle blur net ClearButton s = clear blur net s"

subsection \<open>Notions used in the statements\<close>

text \<open>A grid of the shape fixed by \<open>__init__\<close>: \<open>rows\<close> rows of \<open>cols\<close> cells.\<close>

definition wf_grid :: "'a grid \<Rightarrow> bool" where
  "wf_grid g = (length g = nat rows \<and> list_all (\<lambda>row. length row = nat cols) g)"

definition wf_app :: "app \<Rightarrow> bool" where
  "wf_app s = (wf_grid (pixels s) \<and> wf_grid (cell_fill s))"

text \<open>A blur that returns an image of the size of its argument, as Pillow's filters do.\<close>

definition keeps_shape :: "(nat grid \<Rightarrow> nat grid) \<Rightarrow> bool" where
  "keeps_shape blur = (\<forall>img. wf_grid img \<longrightarrow> wf_grid (blur img))"

text \<open>The distance from the pointer to the centre of cell \<open>(r, c)\<close>.\<close>

definition cell_dist :: "int \<Rightarrow> int \<Rightarrow> int \<Rightarrow> int \<Rightarrow> real" where
  "cell_dist x y r c =
     hypot ((real_of_int c + 0.5) * real_of_int cell_size - real_of_int x)
           ((real_of_int r + 0.5) * real_of_int cell_size - real_of_int y)"

text \<open>Cell by cell comparison of two grids.\<close>

definition grid_le :: "real grid \<Rightarrow> real grid \<Rightarrow> bool" where
  "grid_le g h = list_all2 (list_all2 (\<le>)) g h"

text \<open>The first line of a text.\<close>

definition first_line :: "string \<Rightarrow> string" where
  "first_line t = takeWhile (\<lambda>ch. ch \<noteq> newline) t"

text \<open>A grid that is zero except for the value \<open>v\<close> at row \<open>r\<close>, column \<open>c\<close>.\<close>

definition one_pixel :: "nat \<Rightarrow> nat \<Rightarrow> 'a \<Rightarrow> ('a::zero) grid" where
  "one_pixel r c v =
     (replicate (nat rows) (replicate (nat cols) 0))[r := (replicate (nat cols) 0)[c := v]]"

text \<open>A sequence of paint calls, and a sequence of events.\<close>

definition paint_all ::
  "(nat grid \<Rightarrow> nat grid) \<Rightarrow> (real list \<Rightarrow> real list) \<Rightarrow> (int \<times> int) list \<Rightarrow> app \<Rightarrow> error + app" where
  "paint_all blur net pts s = for_each pts (\<lambda>(x, y) s. antialiased_paint blur net s x y) s"

definition run_events ::
  "(nat grid \<Rightarrow> nat grid) \<Rightarrow> (real list \<Rightarrow> real list) \<Rightarrow> event list \<Rightarrow> app \<Rightarrow> error + app" where
  "run_events blur net evs s = for_each evs (handle blur net) s"

text \<open>
  The intensity of a cell after one paint call, as a function of the intensity before:
  the effect of the loop body on its own cell.
\<close>

definition blend :: "int \<Rightarrow> int \<Rightarrow> int \<Rightarrow> int \<Rightarrow> real \<Rightarrow> real" where
  "blend x y r c old =
     (if cell_dist x y r c \<le> brush_radius
      then max old (1 - cell_dist x y r c / brush_radius) else old)"

text \<open>
  The effect of the loop body on a set of cells: those cells are blended, the other
  cells keep their intensity, and only the pixels and the fill colours change.
\<close>

definition paint_effect :: "int \<Rightarrow> int \<Rightarrow> (int \<times> int) set \<Rightarrow> app \<Rightarrow> app \<Rightarrow> bool" where
  "paint_effect x y cells s s' =
     (\<exists>px fl. s' = s\<lparr>pixels := px, cell_fill := fl\<rparr> \<and> wf_grid px \<and> wf_grid fl \<and>
        (\<forall>i j. i < nat rows \<longrightarrow> j < nat cols \<longrightarrow>
           px ! i ! j = (if (int i, int j) \<in> cells
                         then blend x y (int i) (int j) (pixels s ! i ! j)
                         else pixels s ! i ! j)))"

text \<open>The effect of \<open>clear\<close>'s loop body on a set of cells.\<close>

definition fill_effect :: "(int \<times> int) set \<Rightarrow> app \<Rightarrow> app \<Rightarrow> bool" where
  "fill_effect cells s s' =
     (\<exists>fl. s' = s\<lparr>cell_fill := fl\<rparr> \<and> wf_grid fl \<and>
        (\<forall>i j. i < nat rows \<longrightarrow> j < nat cols \<longrightarrow>
           fl ! i ! j = (if (int i, int j) \<in> cells then ''white'' else cell_fill s ! i ! j)))"

subsection \<open>\<open>_update_results\<close> on a store of array buffers\<close>

text \<open>
  Whether \<open>_update_results\<close> can change \<open>self.pixels\<close> is a question about references:
  a NumPy array or a Pillow image is a reference to a buffer, and two of them may share
  one. Here the method is written once more with that made explicit. A store maps
  addresses to buffers; an array is the address of its buffer; an operation that returns
  a new array allocates a buffer, and one that returns a view returns the address it was
  given. The buffers hold the same values, computed by the same functions, as above.
\<close>

type_synonym addr = nat

datatype buffer = Floats "real grid" | Bytes "nat grid"

record store =
  contents :: "addr \<Rightarrow> buffer"
  next_free :: addr

definition alloc :: "buffer \<Rightarrow> store \<Rightarrow> addr \<times> store" where
  "alloc b h =
     (next_free h, h\<lparr>contents := (contents h)(next_free h := b), next_free := Suc (next_free h)\<rparr>)"

text \<open>
  Reading an array of floats, or of bytes, through a reference; a buffer of the other
  kind is an error.
\<close>

definition floats_at :: "store \<Rightarrow> addr \<Rightarrow> error + real grid" where
  "floats_at h a = (case contents h a of Floats g \<Rightarrow> Inr g | Bytes _ \<Rightarrow> Inl TypeError)"

definition bytes_at :: "store \<Rightarrow> addr \<Rightarrow> error + nat grid" where
  "bytes_at h a = (case contents h a of Bytes g \<Rightarrow> Inr g | Floats _ \<Rightarrow> Inl TypeError)"

text \<open>
  The rows of \<open>n\<close> cells of a flat sequence: what a buffer holds after a write through
  a reshaped view.
\<close>

definition unflatten :: "nat \<Rightarrow> 'a list \<Rightarrow> 'a grid" where
  "unflatten n xs = map (\<lambda>i. take n (drop (i * n) xs)) [0..<length xs div n]"

text \<open>
  The state: the store, the reference \<open>self.pixels\<close>, the text of the panel and the trace
  of the vectors handed to the network.
\<close>

record store_app =
  mem :: store
  pixels_ref :: addr
  panel_text :: string
  fed_inputs :: "real list list"

text \<open>
  \<open>img = (self.pixels * 255).astype(np.uint8)\<close> and \<open>pil_img = Image.fromarray(img)\<close>:
  the product is a new array, \<open>astype\<close> copies, and the image shares the buffer of
  \<open>img\<close>, so the result is the address of \<open>img\<close>.
\<close>

definition scale_store :: "addr \<Rightarrow> store \<Rightarrow> error + addr \<times> store" where
  "scale_store pixels_arr h =
     (case floats_at h pixels_arr of
        Inl e \<Rightarrow> Inl e
      | Inr px \<Rightarrow>
          (case alloc (Floats (map (map (\<lambda>v. v * 255)) px)) h of
             (scaled, h1) \<Rightarrow>
               (case floats_at h1 scaled of
                  Inl e \<Rightarrow> Inl e
                | Inr sc \<Rightarrow> Inr (alloc (Bytes (map (map to_uint8) sc)) h1))))"

text \<open>
  The centre-of-mass block. \<open>np.nonzero\<close>, the boolean index and \<open>np.average\<close> read
  \<open>img\<close>; \<open>transform\<close> returns a new image. Without a nonzero sample \<open>pil_img\<close> stays
  the image that shares the buffer of \<open>img\<close>.
\<close>

definition center_store :: "addr \<Rightarrow> store \<Rightarrow> error + addr \<times> store" where
  "center_store pil_img h =
     (case bytes_at h pil_img of
        Inl e \<Rightarrow> Inl e
      | Inr img \<Rightarrow>
          (case center_shift img of
             Inl e \<Rightarrow> Inl e
           | Inr None \<Rightarrow> Inr (pil_img, h)
           | Inr (Some (shift_x, shift_y)) \<Rightarrow>
               Inr (alloc (Bytes (transform_affine img
                                    (1, 0, real_of_int shift_x, 0, 1, real_of_int shift_y))) h)))"

text \<open>
  \<open>pil_img.filter(ImageFilter.GaussianBlur(radius=0.5))\<close> returns a new image.
\<close>

definition blur_store :: "(nat grid \<Rightarrow> nat grid) \<Rightarrow> addr \<Rightarrow> store \<Rightarrow> error + addr \<times> store" where
  "blur_store blur pil_img h =
     (case bytes_at h pil_img of
        Inl e \<Rightarrow> Inl e
      | Inr img \<Rightarrow> Inr (alloc (Bytes (blur img)) h))"

text \<open>
  \<open>np.array(pil_img).astype(np.float32)\<close> copies twice; \<open>np_img - mn\<close> and the quotient
  are new arrays, and \<open>np_img\<close> is bound to the last one. For a constant image \<open>np_img\<close>
  stays the array of the \<open>astype\<close>.
\<close>

definition stretch_store :: "addr \<Rightarrow> store \<Rightarrow> error + addr \<times> store" where
  "stretch_store pil_img h =
     (case bytes_at h pil_img of
        Inl e \<Rightarrow> Inl e
      | Inr img \<Rightarrow>
          (case alloc (Bytes img) h of
             (arr, h1) \<Rightarrow>
               (case bytes_at h1 arr of
                  Inl e \<Rightarrow> Inl e
                | Inr a \<Rightarrow>
                    (case alloc (Floats (map (map real) a)) h1 of
                       (np_img, h2) \<Rightarrow>
                         (case floats_at h2 np_img of
                            Inl e \<Rightarrow> Inl e
                          | Inr f \<Rightarrow>
                              (case np_min (concat f) of
                                 Inl e \<Rightarrow> Inl e
                               | Inr mn \<Rightarrow>
                                   (case np_max (concat f) of
                                      Inl e \<Rightarrow> Inl e
                                    | Inr mx \<Rightarrow>
                                        if mx > mn then
                                          (case alloc (Floats (map (map (\<lambda>v. v - mn)) f)) h2 of
                                             (diff, h3) \<Rightarrow>
                                               (case floats_at h3 diff of
                                                  Inl e \<Rightarrow> Inl e
                                                | Inr d \<Rightarrow>
                                                    Inr (alloc (Floats (map (map (\<lambda>v. v / (mx - mn))) d)) h3)))
                                        else Inr (np_img, h2))))))))"

text \<open>
  \<open>vect = np_img.reshape((784, 1))\<close> is a view of the buffer of \<open>np_img\<close>, and the
  network receives that reference. What the network does with it is not known here, so
  \<open>feed\<close> returns, with its output, the content it leaves in the buffer of its argument:
  a network that works in place is covered, and a network that only reads returns its
  argument as the second component.
\<close>

definition feed_store ::
  "(real list \<Rightarrow> real list \<times> real list) \<Rightarrow> addr \<Rightarrow> store
     \<Rightarrow> error + (real list \<times> real list) \<times> store" where
  "feed_store feed np_img h =
     (case floats_at h np_img of
        Inl e \<Rightarrow> Inl e
      | Inr f \<Rightarrow>
          (case reshape_784 f of
             Inl e \<Rightarrow> Inl e
           | Inr vect \<Rightarrow>
               (case feed vect of
                  (output, written) \<Rightarrow>
                    Inr ((vect, output),
                         h\<lparr>contents := (contents h)(np_img := Floats (unflatten (image_width f) written))\<rparr>))))"

definition update_results_store ::
  "(nat grid \<Rightarrow> nat grid) \<Rightarrow> (real list \<Rightarrow> real list \<times> real list) \<Rightarrow> store_app
     \<Rightarrow> error + store_app" where
  "update_results_store blur feed s =
     (case floats_at (mem s) (pixels_ref s) of
        Inl e \<Rightarrow> Inl e
      | Inr px \<Rightarrow>
          if \<not> np_any px then Inr (s\<lparr>panel_text := concat zero_lines\<rparr>)
          else
            (case scale_store (pixels_ref s) (mem s) of
               Inl e \<Rightarrow> Inl e
             | Inr (pil_img, h1) \<Rightarrow>
                 (case center_store pil_img h1 of
                    Inl e \<Rightarrow> Inl e
                  | Inr (pil_img, h2) \<Rightarrow>
                      (case blur_store blur pil_img h2 of
                         Inl e \<Rightarrow> Inl e
                       | Inr (pil_img, h3) \<Rightarrow>
                           (case stretch_store pil_img h3 of
                              Inl e \<Rightarrow> Inl e
                            | Inr (np_img, h4) \<Rightarrow>
                                (case feed_store feed np_img h4 of
                                   Inl e \<Rightarrow> Inl e
                                 | Inr ((vect, output), h5) \<Rightarrow>
                                     Inr (s\<lparr>mem := h5,
                                            panel_text := concat (ranked_lines output),
                                            fed_inputs := fed_inputs s @ [vect]\<rparr>)))))))"

text \<open>
  The store \<open>h'\<close> extends \<open>h\<close>: every buffer allocated in \<open>h\<close> is in \<open>h'\<close> with the same
  content.
\<close>

definition extends :: "store \<Rightarrow> store \<Rightarrow> bool" where
  "extends h h' =
     (next_free h \<le> next_free h' \<and> (\<forall>a. a < next_free h \<longrightarrow> contents h' a = contents h a))"

text \<open>
  A store with one array, \<open>self.pixels\<close>, at address 0: intensity 1 at row 10,
  column 10.
\<close>

definition one_pixel_store :: store_app where
  "one_pixel_store =
     \<lparr>mem = \<lparr>contents = (\<lambda>a. Floats (one_pixel 10 10 1)), next_free = 1\<rparr>,
      pixels_ref = 0,
      panel_text = [],
      fed_inputs = []\<rparr>"

section \<open>Properties\<close>

subsection \<open>Ranking and rendering\<close>

lemma mset_argsort: "mset (argsort xs) = mset [0..<length xs]"
  by (simp add: argsort_def)

lemma sorted_argsort: "sorted (map (\<lambda>i. xs ! i) (argsort xs))"
  by (simp add: argsort_def)

lemma mset_ranking: "mset (ranking xs) = mset [0..<length xs]"
  by (simp add: ranking_def mset_argsort)

lemma ranking_descending: "sorted_wrt (\<lambda>i j. xs ! j \<le> xs ! i) (ranking xs)"
  using sorted_argsort [of xs]
  by (simp add: ranking_def sorted_wrt_rev sorted_map)

lemma set_ranking: "set (ranking xs) = {0..<length xs}"
  using mset_ranking [of xs] by (metis mset_eq_setD set_upt)

lemma str_nat_digit: "n < 10 \<Longrightarrow> str_nat n = [''0123456789'' ! n]"
  by (simp add: str_nat.simps)

lemma digit_not_colon: "n < 10 \<Longrightarrow> ''0123456789'' ! n \<noteq> CHR '':''"
proof -
  assume "n < 10"
  then have "n = 0 \<or> n = 1 \<or> n = 2 \<or> n = 3 \<or> n = 4 \<or> n = 5 \<or> n = 6 \<or> n = 7 \<or> n = 8 \<or> n = 9"
    by arith
  then show ?thesis by auto
qed

lemma ranked_line_digit:
  "d < 10 \<Longrightarrow> takeWhile (\<lambda>ch. ch \<noteq> CHR '':'') (ranked_line probs d) = str_int (int d)"
  by (simp add: ranked_line_def str_int_def str_nat_digit digit_not_colon Let_def)

text \<open>
  Claim C8. For a vector of ten probabilities, the ranking is a permutation of the digits
  0 to 9, it is ordered by non-increasing probability, and the rendered lines show the
  digits of the ranking, one line per digit and in that order.
\<close>

theorem ranking_permutes_digits_descending:
  assumes "length probs = 10"
  shows "mset (ranking probs) = mset [0..<10]
       \<and> sorted_wrt (\<lambda>i j. probs ! j \<le> probs ! i) (ranking probs)
       \<and> map (takeWhile (\<lambda>ch. ch \<noteq> CHR '':'')) (ranked_lines probs)
           = map (\<lambda>d. str_int (int d)) (ranking probs)"
proof -
  have perm: "mset (ranking probs) = mset [0..<10]"
    using assms mset_ranking [of probs] by simp
  have "\<forall>d \<in> set (ranking probs). d < 10"
    using assms by (simp add: set_ranking)
  then have shown: "map (takeWhile (\<lambda>ch. ch \<noteq> CHR '':'')) (ranked_lines probs)
           = map (\<lambda>d. str_int (int d)) (ranking probs)"
    by (simp add: ranked_lines_def ranked_line_digit)
  from perm ranking_descending [of probs] shown show ?thesis by blast
qed

theorem ranking_permutes_digits_descending_witness:
  "length [1/10, 0, 0, 0, 0, 0, 0, 0, 0, 9/10 :: real] = 10
   \<and> mset (ranking [1/10, 0, 0, 0, 0, 0, 0, 0, 0, 9/10]) = mset [0..<10]
   \<and> sorted_wrt (\<lambda>i j. [1/10, 0, 0, 0, 0, 0, 0, 0, 0, 9/10 :: real] ! j
                         \<le> [1/10, 0, 0, 0, 0, 0, 0, 0, 0, 9/10] ! i)
        (ranking [1/10, 0, 0, 0, 0, 0, 0, 0, 0, 9/10])"
  using ranking_permutes_digits_descending [of "[1/10, 0, 0, 0, 0, 0, 0, 0, 0, 9/10]"]
  by simp


subsection \<open>Grid accesses\<close>

lemma wf_grid_row: "wf_grid g \<Longrightarrow> i < length g \<Longrightarrow> length (g ! i) = nat cols"
  by (simp add: wf_grid_def list_all_length)

lemma wf_grid_length: "wf_grid g \<Longrightarrow> length g = nat rows"
  by (simp add: wf_grid_def)

lemma np_index_ok: "0 \<le> i \<Longrightarrow> i < int n \<Longrightarrow> np_index n i = Inr (nat i)"
  by (simp add: np_index_def)

lemma grid_get_ok:
  assumes "wf_grid g" "0 \<le> r" "r < rows" "0 \<le> c" "c < cols"
  shows "grid_get g r c = Inr (g ! nat r ! nat c)"
proof -
  have r: "np_index (length g) r = Inr (nat r)"
    using assms by (simp add: np_index_ok wf_grid_length)
  have "length (g ! nat r) = nat cols"
    using assms by (simp add: wf_grid_row wf_grid_length)
  then have c: "np_index (length (g ! nat r)) c = Inr (nat c)"
    using assms by (simp add: np_index_ok)
  show ?thesis by (simp add: grid_get_def r c)
qed

lemma grid_set_ok:
  assumes "wf_grid g" "0 \<le> r" "r < rows" "0 \<le> c" "c < cols"
  shows "grid_set g r c v = Inr (g[nat r := (g ! nat r)[nat c := v]])"
proof -
  have r: "np_index (length g) r = Inr (nat r)"
    using assms by (simp add: np_index_ok wf_grid_length)
  have "length (g ! nat r) = nat cols"
    using assms by (simp add: wf_grid_row wf_grid_length)
  then have c: "np_index (length (g ! nat r)) c = Inr (nat c)"
    using assms by (simp add: np_index_ok)
  show ?thesis by (simp add: grid_set_def r c)
qed

lemma wf_grid_update: "wf_grid g \<Longrightarrow> wf_grid (g[i := (g ! i)[j := v]])"
  by (cases "i < length g") (auto simp: wf_grid_def list_all_length nth_list_update)

lemma nth_grid_update:
  assumes "i < length g"
  shows "g[i := (g ! i)[j := v]] ! i' ! j'
           = (if i' = i \<and> j' = j \<and> j < length (g ! i) then v else g ! i' ! j')"
  using assms by (auto simp: nth_list_update list_update_beyond)

lemma blend_idem: "blend x y r c (blend x y r c v) = blend x y r c v"
  by (simp add: blend_def)

lemma blend_ge: "v \<le> blend x y r c v"
  by (simp add: blend_def)

lemma paint_cell_unfold:
  "paint_cell x y r c (s, u) =
     (if cell_dist x y r c \<le> brush_radius then
        (case grid_get (pixels s) r c of
           Inl e \<Rightarrow> Inl e
         | Inr old \<Rightarrow>
             if max old (1 - cell_dist x y r c / brush_radius) > old then
               (case grid_set (pixels s) r c (max old (1 - cell_dist x y r c / brush_radius)) of
                  Inl e \<Rightarrow> Inl e
                | Inr px \<Rightarrow>
                    (case grid_set (cell_fill s) r c
                            (let gray = py_int (255 * (1 - max old (1 - cell_dist x y r c / brush_radius)))
                             in ''#'' @ fmt_02x gray @ fmt_02x gray @ fmt_02x gray) of
                       Inl e \<Rightarrow> Inl e
                     | Inr fl \<Rightarrow> Inr (s\<lparr>pixels := px, cell_fill := fl\<rparr>, True)))
             else Inr (s, u))
      else Inr (s, u))"
  unfolding paint_cell_def cell_dist_def Let_def by simp

lemma paint_cell_effect:
  assumes wf: "wf_app s" and r: "0 \<le> r" "r < rows" and c: "0 \<le> c" "c < cols"
  shows "\<exists>fl u'. wf_grid fl \<and>
           paint_cell x y r c (s, u)
             = Inr (s\<lparr>pixels := (pixels s)[nat r := (pixels s ! nat r)
                                   [nat c := blend x y r c (pixels s ! nat r ! nat c)]],
                      cell_fill := fl\<rparr>, u')"
proof -
  let ?old = "pixels s ! nat r ! nat c"
  have g: "grid_get (pixels s) r c = Inr ?old"
    using wf r c by (simp add: grid_get_ok wf_app_def)
  have ps: "\<And>v. grid_set (pixels s) r c v = Inr ((pixels s)[nat r := (pixels s ! nat r)[nat c := v]])"
    using wf r c by (simp add: grid_set_ok wf_app_def)
  have fs: "\<And>v. grid_set (cell_fill s) r c v = Inr ((cell_fill s)[nat r := (cell_fill s ! nat r)[nat c := v]])"
    using wf r c by (simp add: grid_set_ok wf_app_def)
  have wfl: "wf_grid (cell_fill s)" using wf by (simp add: wf_app_def)
  have same: "(pixels s)[nat r := (pixels s ! nat r)[nat c := ?old]] = pixels s"
    by simp
  show ?thesis
  proof (cases "cell_dist x y r c \<le> brush_radius \<and> ?old < 1 - cell_dist x y r c / brush_radius")
    case True
    then have b: "blend x y r c ?old = 1 - cell_dist x y r c / brush_radius"
      by (simp add: blend_def max_def)
    have "paint_cell x y r c (s, u)
            = Inr (s\<lparr>pixels := (pixels s)[nat r := (pixels s ! nat r)[nat c := blend x y r c ?old]],
                     cell_fill := (cell_fill s)[nat r := (cell_fill s ! nat r)
                        [nat c := (let gray = py_int (255 * (1 - blend x y r c ?old))
                                   in ''#'' @ fmt_02x gray @ fmt_02x gray @ fmt_02x gray)]]\<rparr>, True)"
      using True unfolding b
      by (simp add: paint_cell_unfold g ps fs max_def)
    then show ?thesis using wf_grid_update [OF wfl] by blast
  next
    case False
    then have b: "blend x y r c ?old = ?old"
      by (auto simp: blend_def max_def)
    have "paint_cell x y r c (s, u) = Inr (s, u)"
      using False
      by (auto simp: paint_cell_unfold g max_def)
    then have "paint_cell x y r c (s, u)
            = Inr (s\<lparr>pixels := (pixels s)[nat r := (pixels s ! nat r)[nat c := blend x y r c ?old]],
                     cell_fill := cell_fill s\<rparr>, u)"
      unfolding b same by simp
    then show ?thesis using wfl by blast
  qed
qed


lemma paint_effect_wf: "paint_effect x y cells s s' \<Longrightarrow> wf_app s'"
  by (auto simp: paint_effect_def wf_app_def)

lemma paint_effect_empty: "wf_app s \<Longrightarrow> paint_effect x y {} s s"
  unfolding paint_effect_def wf_app_def
  by (rule exI [of _ "pixels s"], rule exI [of _ "cell_fill s"]) simp

lemma paint_effect_trans:
  assumes "paint_effect x y A s s1" "paint_effect x y B s1 s2"
  shows "paint_effect x y (A \<union> B) s s2"
proof -
  from assms(1) obtain px1 fl1 where 1: "s1 = s\<lparr>pixels := px1, cell_fill := fl1\<rparr>"
    "wf_grid px1" "wf_grid fl1"
    "\<And>i j. i < nat rows \<Longrightarrow> j < nat cols \<Longrightarrow>
       px1 ! i ! j = (if (int i, int j) \<in> A then blend x y (int i) (int j) (pixels s ! i ! j)
                      else pixels s ! i ! j)"
    unfolding paint_effect_def by blast
  from assms(2) obtain px2 fl2 where 2: "s2 = s1\<lparr>pixels := px2, cell_fill := fl2\<rparr>"
    "wf_grid px2" "wf_grid fl2"
    "\<And>i j. i < nat rows \<Longrightarrow> j < nat cols \<Longrightarrow>
       px2 ! i ! j = (if (int i, int j) \<in> B then blend x y (int i) (int j) (pixels s1 ! i ! j)
                      else pixels s1 ! i ! j)"
    unfolding paint_effect_def by blast
  have s2: "s2 = s\<lparr>pixels := px2, cell_fill := fl2\<rparr>" using 1(1) 2(1) by simp
  have p1: "pixels s1 = px1" using 1(1) by simp
  have "\<And>i j. i < nat rows \<Longrightarrow> j < nat cols \<Longrightarrow>
       px2 ! i ! j = (if (int i, int j) \<in> A \<union> B then blend x y (int i) (int j) (pixels s ! i ! j)
                      else pixels s ! i ! j)"
    using 1(4) 2(4) by (simp add: p1 blend_idem)
  with s2 2(2,3) show ?thesis unfolding paint_effect_def by blast
qed

lemma paint_cell_paint_effect:
  assumes wf: "wf_app s" and r: "0 \<le> r" "r < rows" and c: "0 \<le> c" "c < cols"
  shows "\<exists>s' u'. paint_cell x y r c (s, u) = Inr (s', u') \<and> paint_effect x y {(r, c)} s s'"
proof -
  let ?px = "(pixels s)[nat r := (pixels s ! nat r)[nat c := blend x y r c (pixels s ! nat r ! nat c)]]"
  from paint_cell_effect [OF wf r c] obtain fl u' where
    fl: "wf_grid fl" and pc: "paint_cell x y r c (s, u) = Inr (s\<lparr>pixels := ?px, cell_fill := fl\<rparr>, u')"
    by blast
  have wp: "wf_grid (pixels s)" using wf by (simp add: wf_app_def)
  have wpx: "wf_grid ?px" using wp by (rule wf_grid_update)
  have lr: "nat r < length (pixels s)" using wp r by (simp add: wf_grid_length)
  have lc: "nat c < length (pixels s ! nat r)" using wp lr c by (simp add: wf_grid_row)
  have "\<And>i j. i < nat rows \<Longrightarrow> j < nat cols \<Longrightarrow>
       ?px ! i ! j = (if (int i, int j) \<in> {(r, c)} then blend x y (int i) (int j) (pixels s ! i ! j)
                      else pixels s ! i ! j)"
    using r c lc by (auto simp: nth_grid_update [OF lr])
  with fl wpx have "paint_effect x y {(r, c)} s (s\<lparr>pixels := ?px, cell_fill := fl\<rparr>)"
    unfolding paint_effect_def by blast
  with pc show ?thesis by blast
qed

lemma inner_loop_effect:
  assumes "wf_app s" "0 \<le> r" "r < rows" "\<forall>c \<in> set cs. 0 \<le> c \<and> c < cols"
  shows "\<exists>s' u'. for_each cs (paint_cell x y r) (s, u) = Inr (s', u')
                \<and> paint_effect x y ({r} \<times> set cs) s s'"
  using assms
proof (induction cs arbitrary: s u)
  case Nil
  then show ?case by (simp add: paint_effect_empty)
next
  case (Cons c cs)
  from Cons.prems obtain s1 u1 where
    1: "paint_cell x y r c (s, u) = Inr (s1, u1)" "paint_effect x y {(r, c)} s s1"
    using paint_cell_paint_effect [of s r c x y u] by auto
  have "wf_app s1" using 1(2) by (rule paint_effect_wf)
  with Cons.IH [of s1 u1] Cons.prems obtain s' u' where
    2: "for_each cs (paint_cell x y r) (s1, u1) = Inr (s', u')"
       "paint_effect x y ({r} \<times> set cs) s1 s'"
    by auto
  have "{(r, c)} \<union> {r} \<times> set cs = {r} \<times> set (c # cs)" by auto
  with paint_effect_trans [OF 1(2) 2(2)]
  have "paint_effect x y ({r} \<times> set (c # cs)) s s'" by simp
  with 1(1) 2(1) show ?case by simp
qed

lemma outer_loop_effect:
  assumes "wf_app s" "\<forall>r \<in> set rs. 0 \<le> r \<and> r < rows" "\<forall>c \<in> set cs. 0 \<le> c \<and> c < cols"
  shows "\<exists>s' u'. for_each rs (\<lambda>r. for_each cs (paint_cell x y r)) (s, u) = Inr (s', u')
                \<and> paint_effect x y (set rs \<times> set cs) s s'"
  using assms
proof (induction rs arbitrary: s u)
  case Nil
  then show ?case by (simp add: paint_effect_empty)
next
  case (Cons r rs)
  from Cons.prems obtain s1 u1 where
    1: "for_each cs (paint_cell x y r) (s, u) = Inr (s1, u1)"
       "paint_effect x y ({r} \<times> set cs) s s1"
    using inner_loop_effect [of s r cs x y u] by auto
  have "wf_app s1" using 1(2) by (rule paint_effect_wf)
  with Cons.IH [of s1 u1] Cons.prems obtain s' u' where
    2: "for_each rs (\<lambda>r. for_each cs (paint_cell x y r)) (s1, u1) = Inr (s', u')"
       "paint_effect x y (set rs \<times> set cs) s1 s'"
    by auto
  have "{r} \<times> set cs \<union> set rs \<times> set cs = set (r # rs) \<times> set cs" by auto
  with paint_effect_trans [OF 1(2) 2(2)]
  have "paint_effect x y (set (r # rs) \<times> set cs) s s'" by simp
  with 1(1) 2(1) show ?case by simp
qed

subsection \<open>The range of cells of a paint call\<close>

lemma brush_radius_15: "brush_radius = 15"
  by (simp add: brush_radius_def cell_size_def)

lemma py_int_of_int: "py_int (real_of_int k) = k"
  by (simp add: py_int_def)

lemma r_min_eq: "r_min y = max 0 ((y - 15) div 10)"
proof -
  have "\<lfloor>(real_of_int y - 15) / 10\<rfloor> = (y - 15) div 10"
    using floor_divide_of_int_eq [of "y - 15" 10, where ?'a = real] by simp
  then show ?thesis
    by (simp add: r_min_def floordiv_def py_int_of_int brush_radius_15 cell_size_def)
qed

lemma r_max_eq: "r_max y = min 27 ((y + 15) div 10)"
proof -
  have "\<lfloor>(real_of_int y + 15) / 10\<rfloor> = (y + 15) div 10"
    using floor_divide_of_int_eq [of "y + 15" 10, where ?'a = real] by simp
  then show ?thesis
    by (simp add: r_max_def floordiv_def py_int_of_int brush_radius_15 cell_size_def rows_def)
qed

lemma c_min_eq: "c_min x = max 0 ((x - 15) div 10)"
proof -
  have "\<lfloor>(real_of_int x - 15) / 10\<rfloor> = (x - 15) div 10"
    using floor_divide_of_int_eq [of "x - 15" 10, where ?'a = real] by simp
  then show ?thesis
    by (simp add: c_min_def floordiv_def py_int_of_int brush_radius_15 cell_size_def)
qed

lemma c_max_eq: "c_max x = min 27 ((x + 15) div 10)"
proof -
  have "\<lfloor>(real_of_int x + 15) / 10\<rfloor> = (x + 15) div 10"
    using floor_divide_of_int_eq [of "x + 15" 10, where ?'a = real] by simp
  then show ?thesis
    by (simp add: c_max_def floordiv_def py_int_of_int brush_radius_15 cell_size_def cols_def)
qed

lemma row_range_in_bounds: "r \<in> set [r_min y..r_max y] \<Longrightarrow> 0 \<le> r \<and> r < rows"
  by (simp add: r_min_eq r_max_eq rows_def)

lemma col_range_in_bounds: "c \<in> set [c_min x..c_max x] \<Longrightarrow> 0 \<le> c \<and> c < cols"
  by (simp add: c_min_eq c_max_eq cols_def)

lemma abs_le_hypot1: "\<bar>a\<bar> \<le> hypot a b"
proof -
  have "\<bar>a\<bar>\<^sup>2 \<le> a * a + b * b" by (simp add: power2_eq_square)
  then show ?thesis unfolding hypot_def by (rule real_le_rsqrt)
qed

lemma abs_le_hypot2: "\<bar>b\<bar> \<le> hypot a b"
proof -
  have "\<bar>b\<bar>\<^sup>2 \<le> a * a + b * b" by (simp add: power2_eq_square)
  then show ?thesis unfolding hypot_def by (rule real_le_rsqrt)
qed

lemma within_radius_in_range:
  assumes "cell_dist x y r c \<le> brush_radius" "0 \<le> r" "r < rows" "0 \<le> c" "c < cols"
  shows "r \<in> set [r_min y..r_max y] \<and> c \<in> set [c_min x..c_max x]"
proof -
  have "\<bar>(real_of_int c + 0.5) * real_of_int cell_size - real_of_int x\<bar> \<le> 15"
    using assms(1) abs_le_hypot1 order_trans unfolding cell_dist_def brush_radius_15 by blast
  then have "\<bar>real_of_int (10 * c + 5 - x)\<bar> \<le> 15"
    by (simp add: cell_size_def algebra_simps)
  then have cx: "\<bar>10 * c + 5 - x\<bar> \<le> 15" by linarith
  have "\<bar>(real_of_int r + 0.5) * real_of_int cell_size - real_of_int y\<bar> \<le> 15"
    using assms(1) abs_le_hypot2 order_trans unfolding cell_dist_def brush_radius_15 by blast
  then have "\<bar>real_of_int (10 * r + 5 - y)\<bar> \<le> 15"
    by (simp add: cell_size_def algebra_simps)
  then have ry: "\<bar>10 * r + 5 - y\<bar> \<le> 15" by linarith
  show ?thesis
    using cx ry assms(2-5) by (simp add: r_min_eq r_max_eq c_min_eq c_max_eq rows_def cols_def) arith
qed

text \<open>The test of the loop body, on integers.\<close>

lemma within_radius_iff:
  "cell_dist x y r c \<le> brush_radius
     \<longleftrightarrow> (10 * c + 5 - x) * (10 * c + 5 - x) + (10 * r + 5 - y) * (10 * r + 5 - y) \<le> 225"
proof -
  let ?a = "real_of_int (10 * c + 5 - x)" and ?b = "real_of_int (10 * r + 5 - y)"
  have d: "cell_dist x y r c = sqrt (?a * ?a + ?b * ?b)"
    by (simp add: cell_dist_def hypot_def cell_size_def algebra_simps)
  have "sqrt (?a * ?a + ?b * ?b) \<le> 15 \<longleftrightarrow> ?a * ?a + ?b * ?b \<le> 225"
    using real_sqrt_le_iff [of "?a * ?a + ?b * ?b" 225] by simp
  also have "\<dots> \<longleftrightarrow> real_of_int ((10 * c + 5 - x) * (10 * c + 5 - x)
                                 + (10 * r + 5 - y) * (10 * r + 5 - y)) \<le> real_of_int 225"
    by simp
  also have "\<dots> \<longleftrightarrow> (10 * c + 5 - x) * (10 * c + 5 - x) + (10 * r + 5 - y) * (10 * r + 5 - y) \<le> 225"
    by (simp only: of_int_le_iff)
  finally show ?thesis by (simp add: d brush_radius_15)
qed

subsection \<open>\<open>_update_results\<close> returns\<close>

lemma wf_grid_nonempty: "wf_grid g \<Longrightarrow> g \<noteq> []"
  by (auto simp: wf_grid_def rows_def)

lemma image_width_wf: "wf_grid g \<Longrightarrow> image_width g = nat cols"
  by (cases g) (auto simp: wf_grid_def image_width_def rows_def)

lemma wf_grid_map: "wf_grid g \<Longrightarrow> wf_grid (map (map f) g)"
  by (simp add: wf_grid_def list_all_length)

lemma wf_transform_affine: "wf_grid img \<Longrightarrow> wf_grid (transform_affine img (a, b, c, d, e, f))"
  by (simp add: transform_affine_def wf_grid_def list_all_length image_width_wf)

lemma nonzero_coords_nonzero: "(r, c) \<in> set (nonzero_coords img) \<Longrightarrow> img ! r ! c \<noteq> 0"
  by (auto simp: nonzero_coords_def)

lemma weights_sum_nonzero:
  assumes "nonzero_coords img \<noteq> []"
  shows "sum_list (map (\<lambda>(r, c). real (img ! r ! c)) (nonzero_coords img)) \<noteq> 0"
proof
  let ?ws = "map (\<lambda>(r, c). real (img ! r ! c)) (nonzero_coords img)"
  assume "sum_list ?ws = 0"
  moreover have "\<And>w. w \<in> set ?ws \<Longrightarrow> 0 \<le> w" by auto
  ultimately have zero: "\<forall>w \<in> set ?ws. w = 0"
    by (simp only: sum_list_nonneg_eq_0_iff)
  from assms obtain r c where rc: "(r, c) \<in> set (nonzero_coords img)"
    by (cases "nonzero_coords img") auto
  from zero have "\<forall>p \<in> set (nonzero_coords img). (\<lambda>(r, c). real (img ! r ! c)) p = 0"
    by simp
  with rc have "(\<lambda>(r, c). real (img ! r ! c)) (r, c) = 0" by blast
  then have "img ! r ! c = 0" by simp
  with nonzero_coords_nonzero [OF rc] show False by simp
qed

lemma center_shift_returns: "\<exists>sh. center_shift img = Inr sh"
  using weights_sum_nonzero [of img]
  by (simp add: center_shift_def np_average_def Let_def)

lemma wf_recenter: "wf_grid img \<Longrightarrow> \<exists>out. recenter img = Inr out \<and> wf_grid out"
  using center_shift_returns [of img]
  by (auto simp: recenter_def wf_transform_affine split: option.split)

lemma length_concat_wf: "wf_grid g \<Longrightarrow> length (concat g) = 784"
proof -
  assume wf: "wf_grid g"
  then have "map length g = map (\<lambda>_. nat cols) g"
    by (auto simp: wf_grid_def list_all_iff)
  then have "map length g = replicate (length g) (nat cols)"
    by (simp add: map_replicate_const)
  then show ?thesis
    using wf by (simp add: length_concat sum_list_replicate wf_grid_def rows_def cols_def)
qed

lemma contrast_stretch_wf:
  assumes "wf_grid g"
  shows "\<exists>h. contrast_stretch g = Inr h \<and> wf_grid h"
proof -
  have "length (concat g) \<noteq> 0" using length_concat_wf [OF assms] by simp
  then have "concat g \<noteq> []" by (simp del: length_concat length_0_conv)
  then obtain x xs where "concat g = x # xs" by (cases "concat g") auto
  then show ?thesis
    using assms by (simp add: contrast_stretch_def np_min_def np_max_def wf_grid_map)
qed

lemma update_results_blank:
  "\<not> np_any (pixels s) \<Longrightarrow> update_results blur net s = Inr (s\<lparr>results_text := concat zero_lines\<rparr>)"
  by (simp add: update_results_def)

lemma update_results_ok:
  assumes "wf_grid (pixels s)" "keeps_shape blur"
  shows "\<exists>tx ins. update_results blur net s = Inr (s\<lparr>results_text := tx, net_inputs := ins\<rparr>)"
proof (cases "np_any (pixels s)")
  case False
  then have "update_results blur net s = Inr (s\<lparr>results_text := concat zero_lines, net_inputs := net_inputs s\<rparr>)"
    by (simp add: update_results_def)
  then show ?thesis by blast
next
  case True
  let ?img = "map (map (\<lambda>v. to_uint8 (v * 255))) (pixels s)"
  have "wf_grid ?img" using assms(1) by (rule wf_grid_map)
  from wf_recenter [OF this] obtain pil where pil: "recenter ?img = Inr pil" "wf_grid pil"
    by blast
  let ?np = "map (map real) (blur pil)"
  have "wf_grid (blur pil)"
    using assms(2) pil(2) by (simp add: keeps_shape_def)
  then have "wf_grid ?np" by (rule wf_grid_map)
  then obtain h where h: "contrast_stretch ?np = Inr h" "wf_grid h"
    using contrast_stretch_wf by blast
  have r: "reshape_784 h = Inr (concat h)"
    using h(2) by (simp add: reshape_784_def length_concat_wf)
  have "update_results blur net s
          = Inr (s\<lparr>results_text := concat (ranked_lines (net (concat h))),
                   net_inputs := net_inputs s @ [concat h]\<rparr>)"
    using True by (simp add: update_results_def Let_def pil(1) h(1) r)
  then show ?thesis by blast
qed

lemma update_results_frame:
  assumes "update_results blur net s = Inr s'"
  shows "pixels s' = pixels s \<and> cell_fill s' = cell_fill s \<and> drawing s' = drawing s"
  using assms
  by (auto simp: update_results_def Let_def split: if_splits sum.splits)

subsection \<open>A concrete state and a concrete blur\<close>

lemma wf_blank_app: "wf_app blank_app"
  by (simp add: wf_app_def wf_grid_def blank_app_def rows_def cols_def list_all_length)

lemma keeps_shape_id: "keeps_shape (\<lambda>img. img)"
  by (simp add: keeps_shape_def)

lemma wf_one_pixel: "wf_grid (one_pixel r c v)"
  by (cases "r < 28") (auto simp: one_pixel_def wf_grid_def rows_def cols_def list_all_length nth_list_update)

lemma wf_app_one_pixel: "wf_app (blank_app\<lparr>pixels := one_pixel 10 10 1\<rparr>)"
  using wf_blank_app by (simp add: wf_app_def wf_one_pixel)

subsection \<open>Painting\<close>

lemma paint_loop_effect:
  assumes "wf_app s"
  shows "\<exists>s' u. paint_loop x y s = Inr (s', u)
               \<and> paint_effect x y (set [r_min y..r_max y] \<times> set [c_min x..c_max x]) s s'"
  unfolding paint_loop_def
  using outer_loop_effect [OF assms, of "[r_min y..r_max y]" "[c_min x..c_max x]" x y False]
        row_range_in_bounds [of _ y] col_range_in_bounds [of _ x]
  by blast

lemma paint_effect_all_cells:
  assumes "paint_effect x y (set [r_min y..r_max y] \<times> set [c_min x..c_max x]) s s'"
    and "i < nat rows" "j < nat cols"
  shows "pixels s' ! i ! j = blend x y (int i) (int j) (pixels s ! i ! j)"
proof -
  from assms(1) obtain px fl where s': "s' = s\<lparr>pixels := px, cell_fill := fl\<rparr>"
    and px: "\<And>i j. i < nat rows \<Longrightarrow> j < nat cols \<Longrightarrow>
       px ! i ! j = (if (int i, int j) \<in> set [r_min y..r_max y] \<times> set [c_min x..c_max x]
                     then blend x y (int i) (int j) (pixels s ! i ! j)
                     else pixels s ! i ! j)"
    unfolding paint_effect_def by blast
  show ?thesis
  proof (cases "(int i, int j) \<in> set [r_min y..r_max y] \<times> set [c_min x..c_max x]")
    case True
    then show ?thesis using px [OF assms(2,3)] s' by simp
  next
    case False
    have "\<not> cell_dist x y (int i) (int j) \<le> brush_radius"
    proof
      assume "cell_dist x y (int i) (int j) \<le> brush_radius"
      then have "int i \<in> set [r_min y..r_max y] \<and> int j \<in> set [c_min x..c_max x]"
        using assms(2,3) by (intro within_radius_in_range) auto
      with False show False by simp
    qed
    then have "blend x y (int i) (int j) (pixels s ! i ! j) = pixels s ! i ! j"
      by (simp add: blend_def)
    then show ?thesis using False px [OF assms(2,3)] s' by simp
  qed
qed

lemma antialiased_paint_effect:
  assumes wf: "wf_app s" and blur: "keeps_shape blur"
  shows "\<exists>s'. antialiased_paint blur net s x y = Inr s' \<and> wf_app s' \<and> drawing s' = drawing s \<and>
           (\<forall>i j. i < nat rows \<longrightarrow> j < nat cols \<longrightarrow>
              pixels s' ! i ! j = blend x y (int i) (int j) (pixels s ! i ! j))"
proof -
  from paint_loop_effect [OF wf] obtain s1 u where
    loop: "paint_loop x y s = Inr (s1, u)"
    and eff: "paint_effect x y (set [r_min y..r_max y] \<times> set [c_min x..c_max x]) s s1"
    by blast
  have wf1: "wf_app s1" using eff by (rule paint_effect_wf)
  have d1: "drawing s1 = drawing s" using eff by (auto simp: paint_effect_def)
  have px1: "\<forall>i j. i < nat rows \<longrightarrow> j < nat cols \<longrightarrow>
              pixels s1 ! i ! j = blend x y (int i) (int j) (pixels s ! i ! j)"
    using paint_effect_all_cells [OF eff] by blast
  show ?thesis
  proof (cases u)
    case False
    then have "antialiased_paint blur net s x y = Inr s1"
      by (simp add: antialiased_paint_def loop)
    with wf1 d1 px1 show ?thesis by blast
  next
    case True
    from wf1 have "wf_grid (pixels s1)" by (simp add: wf_app_def)
    from update_results_ok [OF this blur] obtain tx ins where
      ur: "update_results blur net s1 = Inr (s1\<lparr>results_text := tx, net_inputs := ins\<rparr>)"
      by blast
    let ?s' = "s1\<lparr>results_text := tx, net_inputs := ins\<rparr>"
    have "antialiased_paint blur net s x y = Inr ?s'"
      using True by (simp add: antialiased_paint_def loop ur)
    moreover have "wf_app ?s'" using wf1 by (simp add: wf_app_def)
    moreover have "drawing ?s' = drawing s" using d1 by simp
    moreover have "\<forall>i j. i < nat rows \<longrightarrow> j < nat cols \<longrightarrow>
              pixels ?s' ! i ! j = blend x y (int i) (int j) (pixels s ! i ! j)"
      using px1 by simp
    ultimately show ?thesis by blast
  qed
qed

text \<open>
  Claim C3. After a paint call at \<open>(x, y)\<close>, every cell of the grid whose centre is
  within the brush radius holds the maximum of its old intensity and
  \<open>1 - dist / brush_radius\<close>; every other cell keeps its intensity; and every cell
  within the radius lies in the range of cells that the loops visit.
\<close>

theorem paint_postcondition:
  assumes "wf_app s" "keeps_shape blur"
  shows "\<exists>s'. antialiased_paint blur net s x y = Inr s' \<and>
           (\<forall>r c. 0 \<le> r \<and> r < rows \<and> 0 \<le> c \<and> c < cols \<longrightarrow>
              pixels s' ! nat r ! nat c =
                (if cell_dist x y r c \<le> brush_radius
                 then max (pixels s ! nat r ! nat c) (1 - cell_dist x y r c / brush_radius)
                 else pixels s ! nat r ! nat c)
              \<and> (cell_dist x y r c \<le> brush_radius \<longrightarrow>
                   r \<in> set [r_min y..r_max y] \<and> c \<in> set [c_min x..c_max x]))"
proof -
  from antialiased_paint_effect [OF assms, of net x y] obtain s' where
    p: "antialiased_paint blur net s x y = Inr s'"
    and px: "\<And>i j. i < nat rows \<Longrightarrow> j < nat cols \<Longrightarrow>
              pixels s' ! i ! j = blend x y (int i) (int j) (pixels s ! i ! j)"
    by blast
  have "\<And>r c. 0 \<le> r \<and> r < rows \<and> 0 \<le> c \<and> c < cols \<Longrightarrow>
              pixels s' ! nat r ! nat c = blend x y r c (pixels s ! nat r ! nat c)"
    using px [of "nat _" "nat _"] by simp
  then show ?thesis
    using p within_radius_in_range [of x y] unfolding blend_def by blast
qed

theorem paint_postcondition_witness:
  "wf_app blank_app \<and> keeps_shape (\<lambda>img. img) \<and>
   (\<exists>s'. antialiased_paint (\<lambda>img. img) (\<lambda>v. replicate 10 (1 / 10)) blank_app 5 5 = Inr s'
         \<and> pixels s' ! 0 ! 0 = 1 \<and> pixels s' ! 3 ! 3 = 0)"
proof -
  from paint_postcondition [OF wf_blank_app keeps_shape_id, of "\<lambda>v. replicate 10 (1 / 10)" 5 5]
  obtain s' where p: "antialiased_paint (\<lambda>img. img) (\<lambda>v. replicate 10 (1 / 10)) blank_app 5 5 = Inr s'"
    and px: "\<And>r c. 0 \<le> r \<and> r < rows \<and> 0 \<le> c \<and> c < cols \<Longrightarrow>
              pixels s' ! nat r ! nat c =
                (if cell_dist 5 5 r c \<le> brush_radius
                 then max (pixels blank_app ! nat r ! nat c) (1 - cell_dist 5 5 r c / brush_radius)
                 else pixels blank_app ! nat r ! nat c)"
    by blast
  have d0: "cell_dist 5 5 0 0 = 0"
    by (simp add: cell_dist_def hypot_def cell_size_def)
  have "cell_dist 5 5 3 3 = sqrt 1800"
    by (simp add: cell_dist_def hypot_def cell_size_def)
  moreover have "\<not> sqrt 1800 \<le> (15 :: real)"
    using sqrt_le_D [of 1800 15] by auto
  ultimately have d3: "\<not> cell_dist 5 5 3 3 \<le> brush_radius"
    by (simp add: brush_radius_15)
  have "pixels s' ! 0 ! 0 = 1"
    using px [of 0 0] by (simp add: d0 brush_radius_15 rows_def cols_def blank_app_def)
  moreover have "pixels s' ! 3 ! 3 = 0"
    using px [of 3 3] d3 by (simp add: rows_def cols_def blank_app_def)
  ultimately show ?thesis using p wf_blank_app keeps_shape_id by blast
qed

lemma grid_le_nth:
  assumes "wf_grid g" "wf_grid h"
    and "\<And>i j. i < nat rows \<Longrightarrow> j < nat cols \<Longrightarrow> g ! i ! j \<le> h ! i ! j"
  shows "grid_le g h"
  using assms by (simp add: grid_le_def list_all2_conv_all_nth wf_grid_def list_all_length)

lemma grid_le_refl: "grid_le g g"
  by (simp add: grid_le_def list_all2_conv_all_nth)

lemma row_le_trans:
  "list_all2 (\<le>) (a :: real list) b \<Longrightarrow> list_all2 (\<le>) b c \<Longrightarrow> list_all2 (\<le>) a c"
  using list_all2_trans [of "(\<le>)" "(\<le>)" "(\<le>)" a b c] by auto

lemma grid_le_trans: "grid_le g h \<Longrightarrow> grid_le h k \<Longrightarrow> grid_le g k"
  unfolding grid_le_def
  using list_all2_trans [of "list_all2 (\<le>)" "list_all2 (\<le>)" "list_all2 (\<le>)" g h k]
        row_le_trans
  by blast

lemma antialiased_paint_mono:
  assumes "wf_app s" "keeps_shape blur"
  shows "\<exists>s'. antialiased_paint blur net s x y = Inr s' \<and> wf_app s'
              \<and> drawing s' = drawing s \<and> grid_le (pixels s) (pixels s')"
proof -
  from antialiased_paint_effect [OF assms, of net x y] obtain s' where
    p: "antialiased_paint blur net s x y = Inr s'" "wf_app s'" "drawing s' = drawing s"
    and px: "\<And>i j. i < nat rows \<Longrightarrow> j < nat cols \<Longrightarrow>
              pixels s' ! i ! j = blend x y (int i) (int j) (pixels s ! i ! j)"
    by blast
  have "grid_le (pixels s) (pixels s')"
    using assms(1) p(2) by (intro grid_le_nth) (simp_all add: wf_app_def px blend_ge)
  with p show ?thesis by blast
qed

lemma paint_all_mono:
  assumes "wf_app s" "keeps_shape blur"
  shows "\<exists>s'. paint_all blur net pts s = Inr s' \<and> wf_app s' \<and> grid_le (pixels s) (pixels s')"
  using assms(1)
proof (induction pts arbitrary: s)
  case Nil
  then show ?case by (simp add: paint_all_def grid_le_refl)
next
  case (Cons p pts)
  obtain x y where xy: "p = (x, y)" by (cases p)
  from antialiased_paint_mono [OF Cons.prems assms(2), of net x y] obtain s1 where
    1: "antialiased_paint blur net s x y = Inr s1" "wf_app s1" "grid_le (pixels s) (pixels s1)"
    by blast
  from Cons.IH [OF 1(2)] obtain s' where
    2: "paint_all blur net pts s1 = Inr s'" "wf_app s'" "grid_le (pixels s1) (pixels s')"
    by blast
  have "paint_all blur net (p # pts) s = Inr s'"
    using 1(1) 2(1) by (simp add: paint_all_def xy)
  with 2(2) grid_le_trans [OF 1(3) 2(3)] show ?case by blast
qed

lemma handle_mono:
  assumes "wf_app s" "keeps_shape blur" "e \<noteq> ClearButton"
  shows "\<exists>s'. handle blur net e s = Inr s' \<and> wf_app s' \<and> grid_le (pixels s) (pixels s')"
proof (cases e)
  case (ButtonPress x y)
  have "wf_app (s\<lparr>drawing := True\<rparr>)" using assms(1) by (simp add: wf_app_def)
  from antialiased_paint_mono [OF this assms(2), of net x y]
  show ?thesis by (auto simp: ButtonPress)
next
  case (Motion x y)
  show ?thesis
  proof (cases "drawing s")
    case True
    with antialiased_paint_mono [OF assms(1,2), of net x y]
    show ?thesis by (auto simp: Motion)
  next
    case False
    with assms(1) show ?thesis by (simp add: Motion grid_le_refl)
  qed
next
  case (ButtonRelease x y)
  with assms(1) show ?thesis by (simp add: wf_app_def grid_le_refl)
next
  case ClearButton
  with assms(3) show ?thesis by simp
qed

lemma run_events_mono:
  assumes "wf_app s" "keeps_shape blur" "ClearButton \<notin> set evs"
  shows "\<exists>s'. run_events blur net evs s = Inr s' \<and> wf_app s' \<and> grid_le (pixels s) (pixels s')"
  using assms(1,3)
proof (induction evs arbitrary: s)
  case Nil
  then show ?case by (simp add: run_events_def grid_le_refl)
next
  case (Cons e evs)
  then have "e \<noteq> ClearButton" by auto
  from handle_mono [OF Cons.prems(1) assms(2) this, of net] obtain s1 where
    1: "handle blur net e s = Inr s1" "wf_app s1" "grid_le (pixels s) (pixels s1)"
    by blast
  from Cons.IH [OF 1(2)] Cons.prems(2) obtain s' where
    2: "run_events blur net evs s1 = Inr s'" "wf_app s'" "grid_le (pixels s1) (pixels s')"
    by auto
  have "run_events blur net (e # evs) s = Inr s'"
    using 1(1) 2(1) by (simp add: run_events_def)
  with 2(2) grid_le_trans [OF 1(3) 2(3)] show ?case by blast
qed

text \<open>
  Claim C4. No sequence of paint calls lowers the intensity of any cell, and neither does
  any sequence of events without a click on the Clear button.
\<close>

theorem paint_never_decreases:
  assumes "wf_app s" "keeps_shape blur"
  shows "(\<exists>s'. paint_all blur net pts s = Inr s' \<and> grid_le (pixels s) (pixels s'))
       \<and> (ClearButton \<notin> set evs \<longrightarrow>
            (\<exists>s'. run_events blur net evs s = Inr s' \<and> grid_le (pixels s) (pixels s')))"
  using paint_all_mono [OF assms, of net pts] run_events_mono [OF assms, of evs net]
  by blast

theorem paint_never_decreases_witness:
  "wf_app blank_app \<and> keeps_shape (\<lambda>img. img) \<and>
   (\<exists>s'. paint_all (\<lambda>img. img) (\<lambda>v. replicate 10 (1 / 10)) [(5, 5), (140, 140), (5, 5)] blank_app = Inr s'
         \<and> grid_le (pixels blank_app) (pixels s')) \<and>
   ClearButton \<notin> set [ButtonPress 5 5, Motion 12 9, ButtonRelease 12 9] \<and>
   (\<exists>s'. run_events (\<lambda>img. img) (\<lambda>v. replicate 10 (1 / 10))
            [ButtonPress 5 5, Motion 12 9, ButtonRelease 12 9] blank_app = Inr s'
         \<and> grid_le (pixels blank_app) (pixels s'))"
  using paint_never_decreases [OF wf_blank_app keeps_shape_id,
          of "\<lambda>v. replicate 10 (1 / 10)" "[(5, 5), (140, 140), (5, 5)]"
             "[ButtonPress 5 5, Motion 12 9, ButtonRelease 12 9]"]
        wf_blank_app keeps_shape_id
  by simp

lemma for_each_empty_inner: "for_each rs (\<lambda>r. for_each [] (f r)) st = Inr st"
  by (induction rs) simp_all

lemma paint_empty_range:
  assumes "r_max y < r_min y \<or> c_max x < c_min x"
  shows "antialiased_paint blur net s x y = Inr s"
proof -
  have "paint_loop x y s = Inr (s, False)"
    using assms by (auto simp: paint_loop_def for_each_empty_inner)
  then show ?thesis by (simp add: antialiased_paint_def)
qed

text \<open>
  Claim C5. For every pointer position, inside the canvas or not, a paint call returns
  without an error; the rows and columns on which the loop body runs, which are the only
  indices at which it reads and writes the grid, lie between 0 and \<open>rows - 1\<close>,
  respectively \<open>cols - 1\<close>; and when the clipped range is empty the state is unchanged.
\<close>

theorem paint_within_bounds:
  assumes "wf_app s" "keeps_shape blur"
  shows "(\<exists>s'. antialiased_paint blur net s x y = Inr s' \<and> wf_app s')
       \<and> (\<forall>r \<in> set [r_min y..r_max y]. 0 \<le> r \<and> r \<le> rows - 1)
       \<and> (\<forall>c \<in> set [c_min x..c_max x]. 0 \<le> c \<and> c \<le> cols - 1)
       \<and> (r_max y < r_min y \<or> c_max x < c_min x \<longrightarrow> antialiased_paint blur net s x y = Inr s)"
proof -
  have 1: "\<exists>s'. antialiased_paint blur net s x y = Inr s' \<and> wf_app s'"
    using antialiased_paint_mono [OF assms, of net x y] by blast
  have 2: "\<forall>r \<in> set [r_min y..r_max y]. 0 \<le> r \<and> r \<le> rows - 1"
    using row_range_in_bounds [of _ y] by fastforce
  have 3: "\<forall>c \<in> set [c_min x..c_max x]. 0 \<le> c \<and> c \<le> cols - 1"
    using col_range_in_bounds [of _ x] by fastforce
  from 1 2 3 paint_empty_range [of y x blur net s] show ?thesis by blast
qed

theorem paint_within_bounds_witness:
  "wf_app blank_app \<and> keeps_shape (\<lambda>img. img) \<and>
   (\<exists>s'. antialiased_paint (\<lambda>img. img) (\<lambda>v. replicate 10 (1 / 10)) blank_app (-100) 5 = Inr s' \<and> wf_app s') \<and>
   r_min 5 = 0 \<and> r_max 5 = 2 \<and> 0 \<le> r_min 5 \<and> r_max 5 \<le> rows - 1 \<and>
   c_max (-100) < c_min (-100) \<and>
   antialiased_paint (\<lambda>img. img) (\<lambda>v. replicate 10 (1 / 10)) blank_app (-100) 5 = Inr blank_app"
proof -
  have c: "c_max (-100) < c_min (-100)"
    by (simp add: c_max_eq c_min_eq)
  have r: "r_min 5 = 0" "r_max 5 = 2"
    by (simp_all add: r_min_eq r_max_eq)
  have "r_min 5 \<in> set [r_min 5..r_max 5]" "r_max 5 \<in> set [r_min 5..r_max 5]"
    by (simp_all add: r)
  then show ?thesis
    using paint_within_bounds [OF wf_blank_app keeps_shape_id,
            of "\<lambda>v. replicate 10 (1 / 10)" "-100" 5]
          wf_blank_app keeps_shape_id c r
    by simp
qed

subsection \<open>Clearing and the empty drawing\<close>

lemma fill_effect_empty: "wf_grid (cell_fill s) \<Longrightarrow> fill_effect {} s s"
  unfolding fill_effect_def
  by (rule exI [of _ "cell_fill s"]) simp

lemma fill_effect_wf: "fill_effect cells s s' \<Longrightarrow> wf_grid (cell_fill s')"
  by (auto simp: fill_effect_def)

lemma fill_effect_trans:
  assumes "fill_effect A s s1" "fill_effect B s1 s2"
  shows "fill_effect (A \<union> B) s s2"
proof -
  from assms(1) obtain fl1 where 1: "s1 = s\<lparr>cell_fill := fl1\<rparr>" "wf_grid fl1"
    "\<And>i j. i < nat rows \<Longrightarrow> j < nat cols \<Longrightarrow>
       fl1 ! i ! j = (if (int i, int j) \<in> A then ''white'' else cell_fill s ! i ! j)"
    unfolding fill_effect_def by blast
  from assms(2) obtain fl2 where 2: "s2 = s1\<lparr>cell_fill := fl2\<rparr>" "wf_grid fl2"
    "\<And>i j. i < nat rows \<Longrightarrow> j < nat cols \<Longrightarrow>
       fl2 ! i ! j = (if (int i, int j) \<in> B then ''white'' else cell_fill s1 ! i ! j)"
    unfolding fill_effect_def by blast
  have s2: "s2 = s\<lparr>cell_fill := fl2\<rparr>" using 1(1) 2(1) by simp
  have f1: "cell_fill s1 = fl1" using 1(1) by simp
  have "\<And>i j. i < nat rows \<Longrightarrow> j < nat cols \<Longrightarrow>
       fl2 ! i ! j = (if (int i, int j) \<in> A \<union> B then ''white'' else cell_fill s ! i ! j)"
    using 1(3) 2(3) by (simp add: f1)
  with s2 2(2) show ?thesis unfolding fill_effect_def by blast
qed

lemma fill_white_effect:
  assumes wf: "wf_grid (cell_fill s)" and r: "0 \<le> r" "r < rows" and c: "0 \<le> c" "c < cols"
  shows "\<exists>s'. fill_white r c s = Inr s' \<and> fill_effect {(r, c)} s s'"
proof -
  let ?fl = "(cell_fill s)[nat r := (cell_fill s ! nat r)[nat c := ''white'']]"
  have fw: "fill_white r c s = Inr (s\<lparr>cell_fill := ?fl\<rparr>)"
    using wf r c by (simp add: fill_white_def grid_set_ok)
  have wfl: "wf_grid ?fl" using wf by (rule wf_grid_update)
  have lr: "nat r < length (cell_fill s)" using wf r by (simp add: wf_grid_length)
  have lc: "nat c < length (cell_fill s ! nat r)" using wf lr c by (simp add: wf_grid_row)
  have "\<And>i j. i < nat rows \<Longrightarrow> j < nat cols \<Longrightarrow>
       ?fl ! i ! j = (if (int i, int j) \<in> {(r, c)} then ''white'' else cell_fill s ! i ! j)"
    using r c lc by (auto simp: nth_grid_update [OF lr])
  with wfl have "fill_effect {(r, c)} s (s\<lparr>cell_fill := ?fl\<rparr>)"
    unfolding fill_effect_def by blast
  with fw show ?thesis by blast
qed

lemma fill_row_effect:
  assumes "wf_grid (cell_fill s)" "0 \<le> r" "r < rows" "\<forall>c \<in> set cs. 0 \<le> c \<and> c < cols"
  shows "\<exists>s'. for_each cs (fill_white r) s = Inr s' \<and> fill_effect ({r} \<times> set cs) s s'"
  using assms
proof (induction cs arbitrary: s)
  case Nil
  then show ?case by (simp add: fill_effect_empty)
next
  case (Cons c cs)
  from Cons.prems obtain s1 where
    1: "fill_white r c s = Inr s1" "fill_effect {(r, c)} s s1"
    using fill_white_effect [of s r c] by auto
  have "wf_grid (cell_fill s1)" using 1(2) by (rule fill_effect_wf)
  with Cons.IH [of s1] Cons.prems obtain s' where
    2: "for_each cs (fill_white r) s1 = Inr s'" "fill_effect ({r} \<times> set cs) s1 s'"
    by auto
  have "{(r, c)} \<union> {r} \<times> set cs = {r} \<times> set (c # cs)" by auto
  with fill_effect_trans [OF 1(2) 2(2)]
  have "fill_effect ({r} \<times> set (c # cs)) s s'" by simp
  with 1(1) 2(1) show ?case by simp
qed

lemma fill_rows_effect:
  assumes "wf_grid (cell_fill s)" "\<forall>r \<in> set rs. 0 \<le> r \<and> r < rows"
    "\<forall>c \<in> set cs. 0 \<le> c \<and> c < cols"
  shows "\<exists>s'. for_each rs (\<lambda>r. for_each cs (fill_white r)) s = Inr s'
             \<and> fill_effect (set rs \<times> set cs) s s'"
  using assms
proof (induction rs arbitrary: s)
  case Nil
  then show ?case by (simp add: fill_effect_empty)
next
  case (Cons r rs)
  from Cons.prems obtain s1 where
    1: "for_each cs (fill_white r) s = Inr s1" "fill_effect ({r} \<times> set cs) s s1"
    using fill_row_effect [of s r cs] by auto
  have "wf_grid (cell_fill s1)" using 1(2) by (rule fill_effect_wf)
  with Cons.IH [of s1] Cons.prems obtain s' where
    2: "for_each rs (\<lambda>r. for_each cs (fill_white r)) s1 = Inr s'"
       "fill_effect (set rs \<times> set cs) s1 s'"
    by auto
  have "{r} \<times> set cs \<union> set rs \<times> set cs = set (r # rs) \<times> set cs" by auto
  with fill_effect_trans [OF 1(2) 2(2)]
  have "fill_effect (set (r # rs) \<times> set cs) s s'" by simp
  with 1(1) 2(1) show ?case by simp
qed

lemma grid_eq_replicate:
  assumes "wf_grid g" "\<And>i j. i < nat rows \<Longrightarrow> j < nat cols \<Longrightarrow> g ! i ! j = v"
  shows "g = replicate (nat rows) (replicate (nat cols) v)"
proof (rule nth_equalityI)
  show "length g = length (replicate (nat rows) (replicate (nat cols) v))"
    using assms(1) by (simp add: wf_grid_def)
next
  fix i assume "i < length g"
  then have i: "i < nat rows" using assms(1) by (simp add: wf_grid_def)
  have li: "length (g ! i) = nat cols" using assms(1) i by (simp add: wf_grid_def list_all_length)
  have "g ! i = replicate (nat cols) v"
    by (rule nth_equalityI) (simp_all add: li assms(2) [OF i])
  then show "g ! i = replicate (nat rows) (replicate (nat cols) v) ! i"
    using i by simp
qed

lemma np_any_zeros: "\<not> np_any (map (map (\<lambda>_. 0)) g)"
  by (auto simp: np_any_def list_ex_iff)

lemma zero_lines_text:
  "concat zero_lines = concat (map (\<lambda>d. d # '':    0.00%'' @ [newline]) ''0123456789'')"
  by (simp add: zero_lines_def zero_line_def str_int_def str_nat.simps upto.simps)

text \<open>
  Claim C9. From any state, \<open>clear\<close> returns a state whose grid is zero everywhere and
  whose cells are all white, and the panel then shows the ten lines at 0.00% in digit
  order, the very text that \<open>__init__\<close> shows for a grid never drawn on.
\<close>

theorem clear_postcondition:
  assumes "wf_app s"
  shows "\<exists>s'. clear blur net s = Inr s'
           \<and> pixels s' = replicate (nat rows) (replicate (nat cols) 0)
           \<and> cell_fill s' = replicate (nat rows) (replicate (nat cols) ''white'')
           \<and> results_text s' = concat (map (\<lambda>d. d # '':    0.00%'' @ [newline]) ''0123456789'')
           \<and> init_app blur net = Inr (blank_app\<lparr>results_text := results_text s'\<rparr>)"
proof -
  let ?s1 = "s\<lparr>pixels := map (map (\<lambda>_. 0)) (pixels s)\<rparr>"
  have wfl: "wf_grid (cell_fill ?s1)" using assms by (simp add: wf_app_def)
  have rs: "\<forall>r \<in> set [0..rows - 1]. 0 \<le> r \<and> r < rows" by simp
  have cs: "\<forall>c \<in> set [0..cols - 1]. 0 \<le> c \<and> c < cols" by simp
  from fill_rows_effect [OF wfl rs cs] obtain s2 where
    loop: "for_each [0..rows - 1] (\<lambda>r. for_each [0..cols - 1] (fill_white r)) ?s1 = Inr s2"
    and eff: "fill_effect (set [0..rows - 1] \<times> set [0..cols - 1]) ?s1 s2"
    by blast
  from eff obtain fl where s2: "s2 = ?s1\<lparr>cell_fill := fl\<rparr>" and wffl: "wf_grid fl"
    and fl: "\<And>i j. i < nat rows \<Longrightarrow> j < nat cols \<Longrightarrow>
       fl ! i ! j = (if (int i, int j) \<in> set [0..rows - 1] \<times> set [0..cols - 1]
                     then ''white'' else cell_fill ?s1 ! i ! j)"
    unfolding fill_effect_def by blast
  have "\<And>i j. i < nat rows \<Longrightarrow> j < nat cols \<Longrightarrow> fl ! i ! j = ''white''"
    using fl by (simp add: rows_def cols_def)
  with wffl have white: "fl = replicate (nat rows) (replicate (nat cols) ''white'')"
    by (rule grid_eq_replicate)
  have wz: "wf_grid (map (map (\<lambda>_. 0 :: real)) (pixels s))"
    using assms by (simp add: wf_app_def wf_grid_map)
  have "\<And>i j. i < nat rows \<Longrightarrow> j < nat cols \<Longrightarrow> map (map (\<lambda>_. 0 :: real)) (pixels s) ! i ! j = 0"
    using assms by (simp add: wf_app_def wf_grid_def list_all_length)
  with wz have zero: "map (map (\<lambda>_. 0 :: real)) (pixels s) = replicate (nat rows) (replicate (nat cols) 0)"
    by (rule grid_eq_replicate)
  have "\<not> np_any (pixels s2)" using s2 by (simp add: np_any_zeros)
  then have ur: "update_results blur net s2 = Inr (s2\<lparr>results_text := concat zero_lines\<rparr>)"
    by (rule update_results_blank)
  have c: "clear blur net s = Inr (s2\<lparr>results_text := concat zero_lines\<rparr>)"
    using loop ur by (simp add: clear_def Let_def)
  have "\<not> np_any (pixels blank_app)"
    by (auto simp: blank_app_def np_any_def list_ex_iff)
  then have i: "init_app blur net = Inr (blank_app\<lparr>results_text := concat zero_lines\<rparr>)"
    unfolding init_app_def by (rule update_results_blank)
  show ?thesis
    using c i s2 white zero by (simp add: zero_lines_text)
qed

theorem clear_postcondition_witness:
  "wf_app (blank_app\<lparr>pixels := one_pixel 10 10 1\<rparr>) \<and>
   (\<exists>s'. clear (\<lambda>img. img) (\<lambda>v. replicate 10 (1 / 10)) (blank_app\<lparr>pixels := one_pixel 10 10 1\<rparr>) = Inr s'
         \<and> pixels s' = replicate (nat rows) (replicate (nat cols) 0)
         \<and> cell_fill s' = replicate (nat rows) (replicate (nat cols) ''white'')
         \<and> first_line (results_text s') = ''0:    0.00%'')"
proof -
  from clear_postcondition [OF wf_app_one_pixel, of "\<lambda>img. img" "\<lambda>v. replicate 10 (1 / 10)"]
  obtain s' where
    c: "clear (\<lambda>img. img) (\<lambda>v. replicate 10 (1 / 10)) (blank_app\<lparr>pixels := one_pixel 10 10 1\<rparr>) = Inr s'"
       "pixels s' = replicate (nat rows) (replicate (nat cols) 0)"
       "cell_fill s' = replicate (nat rows) (replicate (nat cols) ''white'')"
    and t: "results_text s' = concat (map (\<lambda>d. d # '':    0.00%'' @ [newline]) ''0123456789'')"
    by blast
  have "first_line (results_text s') = ''0:    0.00%''"
    unfolding t by (simp add: first_line_def newline_def)
  with c wf_app_one_pixel show ?thesis by blast
qed

text \<open>
  Claim C6. When every cell of the grid is zero, \<open>_update_results\<close> changes nothing but
  the panel text, whatever the blur and the network are: the network receives no input,
  and the panel shows ten lines, one per digit from 0 to 9, each at 0.00%.
\<close>

theorem all_zero_short_circuit:
  assumes "list_all (list_all (\<lambda>v. v = 0)) (pixels s)"
  shows "\<exists>s'. update_results blur net s = Inr s'
           \<and> net_inputs s' = net_inputs s
           \<and> s' = s\<lparr>results_text := results_text s'\<rparr>
           \<and> results_text s' = concat (map (\<lambda>d. d # '':    0.00%'' @ [newline]) ''0123456789'')"
proof -
  have "\<not> np_any (pixels s)"
    using assms by (auto simp: np_any_def list_ex_iff list_all_iff)
  then have "update_results blur net s = Inr (s\<lparr>results_text := concat zero_lines\<rparr>)"
    by (rule update_results_blank)
  then show ?thesis by (simp add: zero_lines_text)
qed

theorem all_zero_short_circuit_witness:
  "list_all (list_all (\<lambda>v. v = 0)) (pixels blank_app) \<and>
   (\<exists>s'. update_results (\<lambda>img. img) (\<lambda>v. replicate 10 (1 / 10)) blank_app = Inr s'
         \<and> net_inputs s' = []
         \<and> first_line (results_text s') = ''0:    0.00%'')"
proof -
  have z: "list_all (list_all (\<lambda>v. v = 0)) (pixels blank_app)"
    by (simp add: blank_app_def list_all_length)
  from all_zero_short_circuit [OF z, of "\<lambda>img. img" "\<lambda>v. replicate 10 (1 / 10)"]
  obtain s' where
    u: "update_results (\<lambda>img. img) (\<lambda>v. replicate 10 (1 / 10)) blank_app = Inr s'"
       "net_inputs s' = net_inputs blank_app"
    and t: "results_text s' = concat (map (\<lambda>d. d # '':    0.00%'' @ [newline]) ''0123456789'')"
    by blast
  have "first_line (results_text s') = ''0:    0.00%''"
    unfolding t by (simp add: first_line_def newline_def)
  moreover have "net_inputs s' = []" using u(2) by (simp add: blank_app_def)
  ultimately show ?thesis using u(1) z by blast
qed

subsection \<open>Contrast stretch\<close>

lemma np_min_Min: "xs \<noteq> [] \<Longrightarrow> np_min xs = Inr (Min (set xs))"
  by (cases xs) (simp_all add: np_min_def Min.set_eq_fold [symmetric])

lemma np_max_Max: "xs \<noteq> [] \<Longrightarrow> np_max xs = Inr (Max (set xs))"
  by (cases xs) (simp_all add: np_max_def Max.set_eq_fold [symmetric])

lemma contrast_stretch_eq:
  assumes "concat img \<noteq> []"
  shows "contrast_stretch img =
           Inr (if Min (set (concat img)) < Max (set (concat img))
                then map (map (\<lambda>v. (v - Min (set (concat img)))
                                    / (Max (set (concat img)) - Min (set (concat img))))) img
                else img)"
  using assms by (simp add: contrast_stretch_def np_min_Min np_max_Max del: set_concat)

lemma stretch_mono:
  fixes mn mx :: real
  assumes "mn < mx"
  shows "mono (\<lambda>v. (v - mn) / (mx - mn))"
  using assms by (intro monoI divide_right_mono) simp_all

lemma concat_map_map: "concat (map (map f) g) = map f (concat g)"
  by (simp add: map_concat)

text \<open>
  Claim C7. On an image whose minimum \<open>mn\<close> is below its maximum \<open>mx\<close>, the contrast
  stretch returns the image of the values \<open>(v - mn) / (mx - mn)\<close>, whose minimum is 0 and
  whose maximum is 1; a constant image is returned as it is.
\<close>

theorem contrast_stretch_range:
  assumes "concat img \<noteq> []"
  shows "(Min (set (concat img)) < Max (set (concat img)) \<longrightarrow>
           (\<exists>out. contrast_stretch img = Inr out
              \<and> out = map (map (\<lambda>v. (v - Min (set (concat img)))
                                     / (Max (set (concat img)) - Min (set (concat img))))) img
              \<and> Min (set (concat out)) = 0 \<and> Max (set (concat out)) = 1))
       \<and> (Min (set (concat img)) = Max (set (concat img)) \<longrightarrow> contrast_stretch img = Inr img)"
proof -
  let ?S = "set (concat img)"
  let ?f = "\<lambda>v. (v - Min ?S) / (Max ?S - Min ?S)"
  have fin: "finite ?S" "?S \<noteq> {}" using assms by simp_all
  have const: "Min ?S = Max ?S \<longrightarrow> contrast_stretch img = Inr img"
    using contrast_stretch_eq [OF assms] by simp
  have "Min ?S < Max ?S \<longrightarrow>
           (\<exists>out. contrast_stretch img = Inr out \<and> out = map (map ?f) img
              \<and> Min (set (concat out)) = 0 \<and> Max (set (concat out)) = 1)"
  proof
    assume lt: "Min ?S < Max ?S"
    have cs: "contrast_stretch img = Inr (map (map ?f) img)"
      using contrast_stretch_eq [OF assms] lt by simp
    have img: "set (concat (map (map ?f) img)) = ?f ` ?S"
      unfolding concat_map_map by simp
    have m: "mono ?f" using lt by (rule stretch_mono)
    have "Min (?f ` ?S) = ?f (Min ?S)"
      using mono_Min_commute [OF m fin] by simp
    then have mn: "Min (set (concat (map (map ?f) img))) = 0"
      unfolding img by simp
    have "Max (?f ` ?S) = ?f (Max ?S)"
      using mono_Max_commute [OF m fin] by simp
    then have mx: "Max (set (concat (map (map ?f) img))) = 1"
      unfolding img using lt by simp
    from cs mn mx
    show "\<exists>out. contrast_stretch img = Inr out \<and> out = map (map ?f) img
              \<and> Min (set (concat out)) = 0 \<and> Max (set (concat out)) = 1"
      by blast
  qed
  with const show ?thesis by blast
qed

theorem contrast_stretch_range_witness:
  "concat [[0, 51], [255, 102 :: real]] \<noteq> [] \<and>
   contrast_stretch [[0, 51], [255, 102]] = Inr [[0, 1/5], [1, 2/5]] \<and>
   concat [[7, 7 :: real]] \<noteq> [] \<and>
   contrast_stretch [[7, 7]] = Inr [[7, 7]]"
  using contrast_stretch_range [of "[[0, 51], [255, 102]]"] contrast_stretch_range [of "[[7, 7]]"]
  by simp

subsection \<open>Recentering a single pixel\<close>

lemma one_pixel_nth:
  assumes "r < nat rows" "c < nat cols"
  shows "one_pixel r0 c0 v ! r ! c = (if r = r0 \<and> c = c0 then v else 0)"
  using assms by (cases "r0 < nat rows") (auto simp: one_pixel_def nth_list_update)

lemma length_one_pixel: "length (one_pixel r0 c0 v) = nat rows"
  by (simp add: one_pixel_def)

lemma filter_eq_upt: "filter (\<lambda>c. c = c0) [0..<n] = (if c0 < n then [c0] else [])"
  by (induction n) auto

lemma concat_single_row:
  "concat (map (\<lambda>r. if r = r0 then xs else []) [0..<n]) = (if r0 < n then xs else [])"
  by (induction n) auto

lemma nonzero_coords_one_pixel:
  assumes "r0 < nat rows" "c0 < nat cols" "w \<noteq> 0"
  shows "nonzero_coords (one_pixel r0 c0 w) = [(r0, c0)]"
proof -
  have row: "\<And>r. r < nat rows \<Longrightarrow>
      map (\<lambda>c. (r, c)) (filter (\<lambda>c. one_pixel r0 c0 w ! r ! c \<noteq> 0) [0..<length (one_pixel r0 c0 w ! r)])
        = (if r = r0 then [(r0, c0)] else [])"
  proof -
    fix r assume r: "r < nat rows"
    have len: "length (one_pixel r0 c0 w ! r) = nat cols"
      using wf_one_pixel [of r0 c0 w] r by (simp add: wf_grid_row wf_grid_length)
    have "filter (\<lambda>c. one_pixel r0 c0 w ! r ! c \<noteq> 0) [0..<nat cols]
            = filter (\<lambda>c. r = r0 \<and> c = c0) [0..<nat cols]"
      using r assms(3) by (intro filter_cong) (auto simp: one_pixel_nth)
    also have "\<dots> = (if r = r0 then [c0] else [])"
      using assms(2) by (simp add: filter_eq_upt)
    finally show "map (\<lambda>c. (r, c)) (filter (\<lambda>c. one_pixel r0 c0 w ! r ! c \<noteq> 0) [0..<length (one_pixel r0 c0 w ! r)])
        = (if r = r0 then [(r0, c0)] else [])"
      by (simp add: len)
  qed
  have "map (\<lambda>r. map (\<lambda>c. (r, c)) (filter (\<lambda>c. one_pixel r0 c0 w ! r ! c \<noteq> 0)
                                       [0..<length (one_pixel r0 c0 w ! r)])) [0..<nat rows]
          = map (\<lambda>r. if r = r0 then [(r0, c0)] else []) [0..<nat rows]"
  proof (rule map_cong [OF refl])
    fix r assume "r \<in> set [0..<nat rows]"
    then have "r < nat rows" by simp
    then show "map (\<lambda>c. (r, c)) (filter (\<lambda>c. one_pixel r0 c0 w ! r ! c \<noteq> 0)
                                       [0..<length (one_pixel r0 c0 w ! r)])
                 = (if r = r0 then [(r0, c0)] else [])"
      by (rule row)
  qed
  then have "nonzero_coords (one_pixel r0 c0 w)
          = concat (map (\<lambda>r. if r = r0 then [(r0, c0)] else []) [0..<nat rows])"
    unfolding nonzero_coords_def length_one_pixel by (rule arg_cong)
  then show ?thesis using assms(1) by (simp add: concat_single_row)
qed

lemma center_shift_one_pixel:
  assumes "r0 < nat rows" "c0 < nat cols" "w \<noteq> 0"
  shows "center_shift (one_pixel r0 c0 w) = Inr (Some (14 - int c0, 14 - int r0))"
proof -
  have w: "one_pixel r0 c0 w ! r0 ! c0 = w" using assms by (simp add: one_pixel_nth)
  have "py_int (14 - real r0) = 14 - int r0"
    using py_int_of_int [of "14 - int r0"] by simp
  moreover have "py_int (14 - real c0) = 14 - int c0"
    using py_int_of_int [of "14 - int c0"] by simp
  ultimately show ?thesis
    using assms(3)
    by (simp add: center_shift_def nonzero_coords_one_pixel [OF assms] w np_average_def
                  rows_def cols_def)
qed

lemma floor_pixel_centre: "\<lfloor>real n + 1 / 2 + real_of_int k\<rfloor> = int n + k"
  by (rule floor_unique) simp_all

lemma recenter_one_pixel:
  assumes "r0 < nat rows" "c0 < nat cols" "w \<noteq> 0"
  shows "recenter (one_pixel r0 c0 w)
           = Inr (transform_affine (one_pixel r0 c0 w)
                    (1, 0, real_of_int (14 - int c0), 0, 1, real_of_int (14 - int r0)))"
  by (simp add: recenter_def center_shift_one_pixel [OF assms])

lemma recenter_one_pixel_nth:
  assumes "r0 < nat rows" "c0 < nat cols" "w \<noteq> 0" "r < nat rows" "c < nat cols"
  shows "transform_affine (one_pixel r0 c0 w)
           (1, 0, real_of_int (14 - int c0), 0, 1, real_of_int (14 - int r0)) ! r ! c
           = (if int r + 14 = 2 * int r0 \<and> int c + 14 = 2 * int c0 then w else 0)"
proof -
  let ?img = "one_pixel r0 c0 w"
  have wd: "image_width ?img = nat cols" using wf_one_pixel by (rule image_width_wf)
  have "transform_affine ?img
           (1, 0, real_of_int (14 - int c0), 0, 1, real_of_int (14 - int r0)) ! r ! c
          = sample_or_fill ?img (int c + (14 - int c0)) (int r + (14 - int r0))"
    using assms(4,5) floor_pixel_centre [of c "14 - int c0"] floor_pixel_centre [of r "14 - int r0"]
    by (simp add: transform_affine_def length_one_pixel wd) (simp add: algebra_simps)
  also have "\<dots> = (if int r + 14 = 2 * int r0 \<and> int c + 14 = 2 * int c0 then w else 0)"
  proof (cases "0 \<le> int r + (14 - int r0) \<and> int r + (14 - int r0) < rows
              \<and> 0 \<le> int c + (14 - int c0) \<and> int c + (14 - int c0) < cols")
    case True
    then have "sample_or_fill ?img (int c + (14 - int c0)) (int r + (14 - int r0))
        = ?img ! nat (int r + (14 - int r0)) ! nat (int c + (14 - int c0))"
      by (simp add: sample_or_fill_def length_one_pixel wd)
    also have "\<dots> = (if nat (int r + (14 - int r0)) = r0 \<and> nat (int c + (14 - int c0)) = c0
                        then w else 0)"
      using True by (intro one_pixel_nth) auto
    also have "\<dots> = (if int r + 14 = 2 * int r0 \<and> int c + 14 = 2 * int c0 then w else 0)"
      using True by auto
    finally show ?thesis .
  next
    case False
    then have "sample_or_fill ?img (int c + (14 - int c0)) (int r + (14 - int r0)) = 0"
      by (auto simp: sample_or_fill_def length_one_pixel wd)
    moreover have "\<not> (int r + 14 = 2 * int r0 \<and> int c + 14 = 2 * int c0)"
      using False assms(1,2) by (auto simp: rows_def cols_def)
    ultimately show ?thesis by auto
  qed
  finally show ?thesis .
qed

lemma grid_eqI:
  assumes "wf_grid g" "wf_grid h"
    and "\<And>i j. i < nat rows \<Longrightarrow> j < nat cols \<Longrightarrow> g ! i ! j = h ! i ! j"
  shows "g = h"
proof (rule nth_equalityI)
  show "length g = length h" using assms(1,2) by (simp add: wf_grid_def)
next
  fix i assume "i < length g"
  then have i: "i < nat rows" using assms(1) by (simp add: wf_grid_def)
  have "length (g ! i) = nat cols" "length (h ! i) = nat cols"
    using assms(1,2) i by (simp_all add: wf_grid_def list_all_length)
  then show "g ! i = h ! i"
    by (intro nth_equalityI) (simp_all add: assms(3) [OF i])
qed

lemma scale_one_pixel:
  "map (map (\<lambda>v. to_uint8 (v * 255))) (one_pixel 10 10 1) = one_pixel 10 10 255"
proof (rule grid_eqI)
  show "wf_grid (map (map (\<lambda>v. to_uint8 (v * 255))) (one_pixel 10 10 (1 :: real)))"
    using wf_one_pixel by (rule wf_grid_map)
  show "wf_grid (one_pixel 10 10 (255 :: nat))" by (rule wf_one_pixel)
  fix i j assume ij: "i < nat rows" "j < nat cols"
  have "length (one_pixel 10 10 (1 :: real) ! i) = nat cols"
    using wf_one_pixel [of 10 10 "1 :: real"] ij by (simp add: wf_grid_row wf_grid_length)
  then show "map (map (\<lambda>v. to_uint8 (v * 255))) (one_pixel 10 10 1) ! i ! j
              = one_pixel 10 10 255 ! i ! j"
    using ij by (simp add: length_one_pixel one_pixel_nth to_uint8_def py_int_def)
qed

text \<open>
  Claim C1, at one grid. The grid has intensity 1 at row 10, column 10 and 0 elsewhere.
  The shift computed is \<open>(4, 4)\<close>, towards the centre \<open>(14, 14)\<close>; the affine transform
  reads each output pixel \<open>(x, y)\<close> from the input at \<open>(x + 4, y + 4)\<close>, so the pixel
  lands at row 6, column 6, twice as far from the centre as it was, and the centre stays 0.
\<close>

theorem recenter_single_pixel:
  "center_shift (map (map (\<lambda>v. to_uint8 (v * 255))) (one_pixel 10 10 1)) = Inr (Some (4, 4))
   \<and> recenter (map (map (\<lambda>v. to_uint8 (v * 255))) (one_pixel 10 10 1)) = Inr (one_pixel 6 6 255)"
proof -
  let ?out = "transform_affine (one_pixel 10 10 (255 :: nat))
                (1, 0, real_of_int (14 - int 10), 0, 1, real_of_int (14 - int 10))"
  have cs: "center_shift (one_pixel 10 10 (255 :: nat)) = Inr (Some (4, 4))"
    using center_shift_one_pixel [of 10 10 255] by (simp add: rows_def cols_def)
  have rc: "recenter (one_pixel 10 10 (255 :: nat)) = Inr ?out"
    by (rule recenter_one_pixel) (simp_all add: rows_def cols_def)
  have "?out = one_pixel 6 6 255"
  proof (rule grid_eqI)
    show "wf_grid ?out"
      using wf_one_pixel by (rule wf_transform_affine)
    show "wf_grid (one_pixel 6 6 (255 :: nat))" by (rule wf_one_pixel)
    fix i j assume ij: "i < nat rows" "j < nat cols"
    have "?out ! i ! j
            = (if int i + 14 = 2 * int 10 \<and> int j + 14 = 2 * int 10 then 255 else 0)"
      using ij by (intro recenter_one_pixel_nth) (simp_all add: rows_def cols_def)
    also have "\<dots> = one_pixel 6 6 (255 :: nat) ! i ! j"
      using ij by (auto simp: one_pixel_nth)
    finally show "?out ! i ! j = one_pixel 6 6 255 ! i ! j" .
  qed
  with cs rc show ?thesis by (simp add: scale_one_pixel)
qed

subsection \<open>The format of a ranked line\<close>

lemma str_nat_0: "str_nat 0 = ''0''"
  by (simp add: str_nat.simps [of 0])

lemma str_nat_9: "str_nat 9 = ''9''"
  by (simp add: str_nat.simps [of 9])

lemma str_nat_90: "str_nat 90 = ''90''"
  by (simp add: str_nat.simps [of 90] str_nat_9 str_nat_0)

lemma round_half_even_of_int: "round_half_even (real_of_int k) = k"
  by (simp add: round_half_even_def)

lemma fmt_6_2f_90: "fmt_6_2f 90 = '' 90.00''"
proof -
  have "round_half_even (\<bar>90\<bar> * 100) = 9000"
    using round_half_even_of_int [of 9000] by simp
  then have "fmt_2f 90 = ''90.00''"
    by (simp add: fmt_2f_def Let_def lpad_def str_nat_90 str_nat_0)
  then show ?thesis by (simp add: fmt_6_2f_def lpad_def)
qed

lemma ranking_example:
  "ranking [1 / 10, 0, 0, 0, 0, 0, 0, 0, 0, 9 / 10] = [9, 0, 8, 7, 6, 5, 4, 3, 2, 1]"
  by (simp add: ranking_def argsort_def upt_rec_numeral)

lemma ranked_line_example:
  "ranked_line [1 / 10, 0, 0, 0, 0, 0, 0, 0, 0, 9 / 10] 9 = ''9:  90.00%'' @ [newline]"
proof -
  have "[1 / 10, 0, 0, 0, 0, 0, 0, 0, 0, 9 / 10 :: real] ! 9 = 9 / 10" by simp
  then show ?thesis
    by (simp add: ranked_line_def Let_def fmt_6_2f_90 str_int_def str_nat_9)
qed

lemma first_line_example:
  "first_line (concat (ranked_lines [1 / 10, 0, 0, 0, 0, 0, 0, 0, 0, 9 / 10])) = ''9:  90.00%''"
proof -
  have "ranked_lines [1 / 10, 0, 0, 0, 0, 0, 0, 0, 0, 9 / 10]
          = (''9:  90.00%'' @ [newline])
            # map (ranked_line [1 / 10, 0, 0, 0, 0, 0, 0, 0, 0, 9 / 10]) [0, 8, 7, 6, 5, 4, 3, 2, 1]"
    unfolding ranked_lines_def ranking_example by (simp add: ranked_line_example)
  then show ?thesis by (simp add: first_line_def newline_def)
qed

text \<open>
  Claim C2 as stated fails: for the probability vector \<open>[0.1, 0, 0, 0, 0, 0, 0, 0, 0, 0.9]\<close>
  the first line of the panel is not \<open>9: 90.00%\<close>.
\<close>

theorem first_line_single_space_counterexample:
  "first_line (concat (ranked_lines [1 / 10, 0, 0, 0, 0, 0, 0, 0, 0, 9 / 10])) \<noteq> ''9: 90.00%''"
  by (simp add: first_line_example)

lemma update_results_ranked:
  assumes "np_any (pixels s)" "update_results blur net s = Inr s'"
  shows "\<exists>vect. net_inputs s' = net_inputs s @ [vect]
              \<and> results_text s' = concat (ranked_lines (net vect))"
  using assms
  by (auto simp: update_results_def Let_def split: sum.splits)

lemma length_str_nat_small: "m < 100 \<Longrightarrow> length (str_nat m) \<le> 2 \<and> 1 \<le> length (str_nat m)"
proof -
  assume m: "m < 100"
  show ?thesis
  proof (cases "m < 10")
    case True
    then show ?thesis by (simp add: str_nat.simps [of m])
  next
    case False
    then have "m div 10 < 10" using m by simp
    then have "str_nat (m div 10) = [''0123456789'' ! (m div 10)]"
      by (simp add: str_nat.simps [of "m div 10"])
    then show ?thesis using False by (simp add: str_nat.simps [of m])
  qed
qed

lemma length_fraction: "length (lpad 2 CHR ''0'' (str_nat (n mod 100))) = 2"
  using length_str_nat_small [of "n mod 100"] by (simp add: lpad_def)

lemma round_half_even_error: "\<bar>real_of_int (round_half_even y) - y\<bar> \<le> 1 / 2"
  unfolding round_half_even_def Let_def by (simp; linarith)

lemma round_half_even_nonneg: "0 \<le> y \<Longrightarrow> 0 \<le> round_half_even y"
  unfolding round_half_even_def Let_def by (simp; linarith)

lemma fmt_6_2f_shape:
  assumes "0 \<le> x"
  shows "fmt_6_2f x = lpad 3 CHR '' '' (str_nat (nat (round_half_even (x * 100)) div 100))
                      @ ''.'' @ lpad 2 CHR ''0'' (str_nat (nat (round_half_even (x * 100)) mod 100))"
proof -
  let ?n = "nat (round_half_even (x * 100))"
  have "fmt_2f x = str_nat (?n div 100) @ ''.'' @ lpad 2 CHR ''0'' (str_nat (?n mod 100))"
    using assms by (simp add: fmt_2f_def Let_def)
  then show ?thesis
    using length_fraction [of ?n] by (simp add: fmt_6_2f_def lpad_def [of 6] lpad_def [of 3])
qed

lemma hundredths_error:
  assumes "0 \<le> x"
  shows "\<bar>real (nat (round_half_even (x * 100))) / 100 - x\<bar> \<le> 1 / 200"
proof -
  have "0 \<le> round_half_even (x * 100)" using assms by (simp add: round_half_even_nonneg)
  then have n: "real (nat (round_half_even (x * 100))) = real_of_int (round_half_even (x * 100))"
    by simp
  have "real_of_int (round_half_even (x * 100)) / 100 - x
          = (real_of_int (round_half_even (x * 100)) - x * 100) / 100"
    by simp
  then have "\<bar>real_of_int (round_half_even (x * 100)) / 100 - x\<bar>
          = \<bar>real_of_int (round_half_even (x * 100)) - x * 100\<bar> / 100"
    by (simp only: abs_divide abs_numeral)
  also have "\<dots> \<le> (1 / 2) / 100"
    using round_half_even_error [of "x * 100"] by (intro divide_right_mono) simp_all
  finally show ?thesis unfolding n by simp
qed

lemma ranked_line_shape:
  assumes "d < 10" "0 \<le> probs ! d"
  shows "\<exists>n. \<bar>real n / 100 - probs ! d * 100\<bar> \<le> 1 / 200
           \<and> ranked_line probs d
               = [''0123456789'' ! d] @ '': '' @ lpad 3 CHR '' '' (str_nat (n div 100))
                 @ ''.'' @ lpad 2 CHR ''0'' (str_nat (n mod 100)) @ ''%'' @ [newline]
           \<and> length (lpad 2 CHR ''0'' (str_nat (n mod 100))) = 2"
proof -
  let ?x = "probs ! d * 100"
  let ?n = "nat (round_half_even (?x * 100))"
  have x: "0 \<le> ?x" using assms(2) by simp
  have "ranked_line probs d
               = [''0123456789'' ! d] @ '': '' @ lpad 3 CHR '' '' (str_nat (?n div 100))
                 @ ''.'' @ lpad 2 CHR ''0'' (str_nat (?n mod 100)) @ ''%'' @ [newline]"
    using assms(1) by (simp add: ranked_line_def Let_def fmt_6_2f_shape [OF x] str_int_def str_nat_digit)
  with hundredths_error [OF x] length_fraction [of ?n] show ?thesis by blast
qed

text \<open>
  Claim C2, amended. After an inference on a drawing, the panel holds one line per ranked
  digit. When the network returns \<open>[0.1, 0, 0, 0, 0, 0, 0, 0, 0, 0.9]\<close> the first line is
  \<open>9:  90.00%\<close>, with two spaces after the colon. Each line of a digit with a
  non-negative probability is the digit, a colon and a space, the percentage rounded to
  two decimals with its integer part right-aligned in three columns (a field of six
  characters), and a percent sign.
\<close>

theorem ranked_line_format:
  assumes "np_any (pixels s)" "update_results blur net s = Inr s'"
  shows "\<exists>vect. net_inputs s' = net_inputs s @ [vect]
          \<and> results_text s' = concat (map (ranked_line (net vect)) (ranking (net vect)))
          \<and> (net vect = [1 / 10, 0, 0, 0, 0, 0, 0, 0, 0, 9 / 10]
                \<longrightarrow> first_line (results_text s') = ''9:  90.00%'')
          \<and> (\<forall>d < 10. 0 \<le> net vect ! d \<longrightarrow>
               (\<exists>n. \<bar>real n / 100 - net vect ! d * 100\<bar> \<le> 1 / 200
                  \<and> ranked_line (net vect) d
                      = [''0123456789'' ! d] @ '': '' @ lpad 3 CHR '' '' (str_nat (n div 100))
                        @ ''.'' @ lpad 2 CHR ''0'' (str_nat (n mod 100)) @ ''%'' @ [newline]
                  \<and> length (lpad 2 CHR ''0'' (str_nat (n mod 100))) = 2))"
proof -
  from update_results_ranked [OF assms] obtain vect where
    v: "net_inputs s' = net_inputs s @ [vect]" "results_text s' = concat (ranked_lines (net vect))"
    by blast
  have "net vect = [1 / 10, 0, 0, 0, 0, 0, 0, 0, 0, 9 / 10]
          \<longrightarrow> first_line (results_text s') = ''9:  90.00%''"
    using v(2) first_line_example by simp
  with v ranked_line_shape [of _ "net vect"] show ?thesis
    unfolding ranked_lines_def by blast
qed

lemma np_any_one_pixel: "np_any (one_pixel 10 10 (1 :: real))"
proof -
  let ?g = "one_pixel 10 10 (1 :: real)"
  have "?g ! 10 \<in> set ?g"
    by (rule nth_mem) (simp add: length_one_pixel rows_def)
  moreover have "?g ! 10 ! 10 \<in> set (?g ! 10)"
    using wf_grid_row [OF wf_one_pixel, of 10 10 10 "1 :: real"]
    by (intro nth_mem) (simp add: length_one_pixel rows_def cols_def)
  moreover have "?g ! 10 ! 10 = 1"
    by (simp add: one_pixel_nth rows_def cols_def)
  ultimately show ?thesis
    unfolding np_any_def list_ex_iff set_concat by (metis UN_I zero_neq_one)
qed

theorem ranked_line_format_witness:
  "np_any (pixels (blank_app\<lparr>pixels := one_pixel 10 10 1\<rparr>)) \<and>
   (\<exists>s'. update_results (\<lambda>img. img) (\<lambda>v. [1 / 10, 0, 0, 0, 0, 0, 0, 0, 0, 9 / 10])
            (blank_app\<lparr>pixels := one_pixel 10 10 1\<rparr>) = Inr s'
         \<and> first_line (results_text s') = ''9:  90.00%'')"
proof -
  let ?s = "blank_app\<lparr>pixels := one_pixel 10 10 1\<rparr>"
  let ?net = "\<lambda>v :: real list. [1 / 10, 0, 0, 0, 0, 0, 0, 0, 0, 9 / 10 :: real]"
  have a: "np_any (pixels ?s)" by (simp add: np_any_one_pixel)
  have "wf_grid (pixels ?s)" by (simp add: wf_one_pixel)
  from update_results_ok [OF this keeps_shape_id, of ?net] obtain s' where
    u: "update_results (\<lambda>img. img) ?net ?s = Inr s'" by blast
  from ranked_line_format [OF a u] have "first_line (results_text s') = ''9:  90.00%''" by blast
  with a u show ?thesis by blast
qed

subsection \<open>The pixel buffer across \<open>_update_results\<close>\<close>

lemma extends_refl: "extends h h"
  by (simp add: extends_def)

lemma extends_trans: "extends h h1 \<Longrightarrow> extends h1 h2 \<Longrightarrow> extends h h2"
  by (auto simp: extends_def)

lemma alloc_spec:
  "alloc b h = (a, h') \<Longrightarrow>
     a = next_free h \<and> next_free h' = Suc (next_free h) \<and> contents h' a = b \<and> extends h h'"
  by (auto simp: alloc_def extends_def)

lemma scale_store_spec:
  assumes "contents h a = Floats px"
  shows "\<exists>a' h'. scale_store a h = Inr (a', h') \<and> extends h h' \<and> next_free h \<le> a'
           \<and> a' < next_free h' \<and> contents h' a' = Bytes (map (map (\<lambda>v. to_uint8 (v * 255))) px)"
  using assms
  by (simp add: scale_store_def floats_at_def alloc_def extends_def comp_def)

lemma center_store_spec:
  assumes "contents h a = Bytes img" "a < next_free h"
  shows "\<exists>a' h' out. center_store a h = Inr (a', h') \<and> extends h h'
           \<and> (a' = a \<or> next_free h \<le> a') \<and> a' < next_free h'
           \<and> contents h' a' = Bytes out \<and> recenter img = Inr out"
proof -
  from center_shift_returns [of img] obtain sh where sh: "center_shift img = Inr sh" by blast
  show ?thesis
  proof (cases sh)
    case None
    then show ?thesis
      using assms sh by (simp add: center_store_def bytes_at_def recenter_def extends_refl)
  next
    case (Some p)
    then obtain sx sy where "sh = Some (sx, sy)" by (cases p) auto
    then show ?thesis
      using assms sh
      by (simp add: center_store_def bytes_at_def recenter_def alloc_def extends_def)
  qed
qed

lemma blur_store_spec:
  assumes "contents h a = Bytes img"
  shows "\<exists>a' h'. blur_store blur a h = Inr (a', h') \<and> extends h h' \<and> next_free h \<le> a'
           \<and> a' < next_free h' \<and> contents h' a' = Bytes (blur img)"
  using assms by (simp add: blur_store_def bytes_at_def alloc_def extends_def)

lemma stretch_store_spec:
  assumes "contents h a = Bytes img" "contrast_stretch (map (map real) img) = Inr out"
  shows "\<exists>a' h'. stretch_store a h = Inr (a', h') \<and> extends h h' \<and> next_free h \<le> a'
           \<and> a' < next_free h' \<and> contents h' a' = Floats out"
proof -
  let ?f = "map (map real) img"
  from assms(2) obtain mn mx where m: "np_min (concat ?f) = Inr mn" "np_max (concat ?f) = Inr mx"
    and out: "out = (if mx > mn then map (map (\<lambda>v. (v - mn) / (mx - mn))) ?f else ?f)"
    by (auto simp: contrast_stretch_def split: sum.splits)
  show ?thesis
  proof (cases "mx > mn")
    case True
    then show ?thesis
      using assms(1) m out
      by (simp add: stretch_store_def bytes_at_def floats_at_def alloc_def extends_def comp_def)
  next
    case False
    then show ?thesis
      using assms(1) m out
      by (simp add: stretch_store_def bytes_at_def floats_at_def alloc_def extends_def)
  qed
qed

lemma feed_store_spec:
  assumes "contents h a = Floats f" "length (concat f) = 784"
  shows "feed_store feed a h
           = Inr ((concat f, fst (feed (concat f))),
                  h\<lparr>contents := (contents h)(a := Floats (unflatten (image_width f) (snd (feed (concat f)))))\<rparr>)"
  using assms
  by (simp add: feed_store_def floats_at_def reshape_784_def split: prod.split del: length_concat)

lemma extends_next_free: "extends h h' \<Longrightarrow> next_free h \<le> next_free h'"
  by (simp add: extends_def)

lemma extends_cells: "extends h h' \<Longrightarrow> a < next_free h \<Longrightarrow> contents h' a = contents h a"
  by (simp add: extends_def)

text \<open>
  Claim C10. On every store in which \<open>self.pixels\<close> is an allocated 28 by 28 array of
  floats, \<open>_update_results\<close> returns; the reference \<open>self.pixels\<close> is the same afterwards
  and its buffer holds the intensities it held before, as does every buffer that existed
  before the call, whatever the network writes into the vector it receives: each array
  that the pipeline creates, hands on or lets the network write to is a buffer of its
  own. The panel text and the network input are those of \<open>update_results\<close> above.
\<close>

theorem update_results_store_keeps_pixels:
  assumes c: "contents (mem s) (pixels_ref s) = Floats px" and wf: "wf_grid px"
    and al: "pixels_ref s < next_free (mem s)" and ks: "keeps_shape blur"
  shows "\<exists>s'. update_results_store blur feed s = Inr s'
           \<and> pixels_ref s' = pixels_ref s
           \<and> contents (mem s') (pixels_ref s') = Floats px
           \<and> (\<forall>a. a < next_free (mem s) \<longrightarrow> contents (mem s') a = contents (mem s) a)
           \<and> (\<forall>fl d. update_results blur (\<lambda>v. fst (feed v))
                        \<lparr>pixels = px, cell_fill = fl, results_text = panel_text s,
                         drawing = d, net_inputs = fed_inputs s\<rparr>
                      = Inr \<lparr>pixels = px, cell_fill = fl, results_text = panel_text s',
                             drawing = d, net_inputs = fed_inputs s'\<rparr>)"
proof (cases "np_any px")
  case False
  then have "update_results_store blur feed s = Inr (s\<lparr>panel_text := concat zero_lines\<rparr>)"
    by (simp add: update_results_store_def floats_at_def c)
  moreover have "\<forall>fl d. update_results blur (\<lambda>v. fst (feed v))
                        \<lparr>pixels = px, cell_fill = fl, results_text = panel_text s,
                         drawing = d, net_inputs = fed_inputs s\<rparr>
                      = Inr \<lparr>pixels = px, cell_fill = fl, results_text = concat zero_lines,
                             drawing = d, net_inputs = fed_inputs s\<rparr>"
    using False by (simp add: update_results_def)
  ultimately show ?thesis using c by simp
next
  case True
  let ?img = "map (map (\<lambda>v. to_uint8 (v * 255))) px"
  from scale_store_spec [OF c] obtain a1 h1 where
    1: "scale_store (pixels_ref s) (mem s) = Inr (a1, h1)" "extends (mem s) h1"
       "next_free (mem s) \<le> a1" "a1 < next_free h1" "contents h1 a1 = Bytes ?img"
    by blast
  from center_store_spec [OF 1(5) 1(4)] obtain a2 h2 out where
    2: "center_store a1 h1 = Inr (a2, h2)" "extends h1 h2" "a2 < next_free h2"
       "contents h2 a2 = Bytes out" "recenter ?img = Inr out"
    by blast
  have "wf_grid ?img" using wf by (rule wf_grid_map)
  from wf_recenter [OF this] 2(5) have wfo: "wf_grid out" by auto
  from blur_store_spec [OF 2(4)] obtain a3 h3 where
    3: "blur_store blur a2 h2 = Inr (a3, h3)" "extends h2 h3" "contents h3 a3 = Bytes (blur out)"
    by blast
  have "wf_grid (blur out)" using ks wfo by (simp add: keeps_shape_def)
  then have "wf_grid (map (map real) (blur out))" by (rule wf_grid_map)
  from contrast_stretch_wf [OF this] obtain st where
    st: "contrast_stretch (map (map real) (blur out)) = Inr st" "wf_grid st"
    by blast
  from stretch_store_spec [OF 3(3) st(1)] obtain a4 h4 where
    4: "stretch_store a3 h3 = Inr (a4, h4)" "extends h3 h4" "next_free h3 \<le> a4"
       "contents h4 a4 = Floats st"
    by blast
  have len: "length (concat st) = 784" using st(2) by (rule length_concat_wf)
  let ?h5 = "h4\<lparr>contents := (contents h4)(a4 := Floats (unflatten (image_width st) (snd (feed (concat st)))))\<rparr>"
  have 5: "feed_store feed a4 h4 = Inr ((concat st, fst (feed (concat st))), ?h5)"
    using 4(4) len by (rule feed_store_spec)
  let ?s' = "s\<lparr>mem := ?h5, panel_text := concat (ranked_lines (fst (feed (concat st)))),
               fed_inputs := fed_inputs s @ [concat st]\<rparr>"
  have run: "update_results_store blur feed s = Inr ?s'"
    using True by (simp add: update_results_store_def floats_at_def c 1(1) 2(1) 3(1) 4(1) 5)
  have e4: "extends (mem s) h4"
    using 1(2) 2(2) 3(2) 4(2) by (blast intro: extends_trans)
  have "next_free (mem s) \<le> next_free h3"
    using 1(2) 2(2) 3(2) by (blast intro: extends_trans extends_next_free)
  then have fresh: "next_free (mem s) \<le> a4" using 4(3) by simp
  have frame: "\<forall>a. a < next_free (mem s) \<longrightarrow> contents (mem ?s') a = contents (mem s) a"
    using fresh extends_cells [OF e4] by simp
  have px: "contents (mem ?s') (pixels_ref ?s') = Floats px"
    using frame al c by simp
  have "reshape_784 st = Inr (concat st)"
    using len by (simp add: reshape_784_def del: length_concat)
  then have val: "\<forall>fl d. update_results blur (\<lambda>v. fst (feed v))
                        \<lparr>pixels = px, cell_fill = fl, results_text = panel_text s,
                         drawing = d, net_inputs = fed_inputs s\<rparr>
                      = Inr \<lparr>pixels = px, cell_fill = fl, results_text = panel_text ?s',
                             drawing = d, net_inputs = fed_inputs ?s'\<rparr>"
    using True by (simp add: update_results_def Let_def 2(5) st(1))
  from run frame px val show ?thesis by (intro exI [of _ ?s']) simp
qed

theorem update_results_store_keeps_pixels_witness:
  "contents (mem one_pixel_store) (pixels_ref one_pixel_store) = Floats (one_pixel 10 10 1)
   \<and> wf_grid (one_pixel 10 10 (1 :: real))
   \<and> pixels_ref one_pixel_store < next_free (mem one_pixel_store)
   \<and> keeps_shape (\<lambda>img. img)
   \<and> (\<exists>s'. update_results_store (\<lambda>img. img)
              (\<lambda>v. (replicate 10 (1 / 10), map (\<lambda>_. 0) v)) one_pixel_store = Inr s'
          \<and> pixels_ref s' = 0
          \<and> contents (mem s') 0 = Floats (one_pixel 10 10 1))"
proof -
  have c: "contents (mem one_pixel_store) (pixels_ref one_pixel_store) = Floats (one_pixel 10 10 1)"
    by (simp add: one_pixel_store_def)
  have al: "pixels_ref one_pixel_store < next_free (mem one_pixel_store)"
    by (simp add: one_pixel_store_def)
  have p: "pixels_ref one_pixel_store = 0" by (simp add: one_pixel_store_def)
  from update_results_store_keeps_pixels [OF c wf_one_pixel al keeps_shape_id,
            of "\<lambda>v. (replicate 10 (1 / 10), map (\<lambda>_. 0) v)"]
  obtain s' where
    "update_results_store (\<lambda>img. img) (\<lambda>v. (replicate 10 (1 / 10), map (\<lambda>_. 0) v))
       one_pixel_store = Inr s'"
    "pixels_ref s' = pixels_ref one_pixel_store"
    "contents (mem s') (pixels_ref s') = Floats (one_pixel 10 10 1)"
    by blast
  then show ?thesis using c al wf_one_pixel [of 10 10 "1 :: real"] keeps_shape_id by (auto simp: p)
qed

lemma set_unflatten: "row \<in> set (unflatten n xs) \<Longrightarrow> set row \<subseteq> set xs"
proof -
  assume "row \<in> set (unflatten n xs)"
  then obtain i where "row = take n (drop (i * n) xs)"
    by (auto simp: unflatten_def)
  then show ?thesis
    using set_take_subset [of n "drop (i * n) xs"] set_drop_subset [of "i * n" xs] by auto
qed

lemma one_pixel_has_value: "v \<in> set (one_pixel 10 10 v ! 10)"
proof -
  have "length (one_pixel 10 10 v ! 10) = nat cols"
    using wf_grid_row [OF wf_one_pixel, of 10 10 10 v] by (simp add: length_one_pixel rows_def)
  then have "one_pixel 10 10 v ! 10 ! 10 \<in> set (one_pixel 10 10 v ! 10)"
    by (intro nth_mem) (simp add: cols_def)
  then show ?thesis by (simp add: one_pixel_nth rows_def cols_def)
qed

text \<open>
  The store tells a view from a copy: handed the buffer of \<open>self.pixels\<close> itself, a
  network that zeroes its argument would change the drawing.
\<close>

lemma feed_store_writes_in_place:
  "\<exists>r h'. feed_store (\<lambda>v. (replicate 10 (1 / 10), map (\<lambda>_. 0) v)) 0 (mem one_pixel_store)
             = Inr (r, h')
         \<and> contents h' 0 \<noteq> contents (mem one_pixel_store) 0"
proof -
  let ?feed = "\<lambda>v :: real list. (replicate 10 (1 / 10 :: real), map (\<lambda>_. 0 :: real) v)"
  let ?g = "one_pixel 10 10 (1 :: real)"
  let ?w = "unflatten (image_width ?g) (snd (?feed (concat ?g)))"
  have c: "contents (mem one_pixel_store) 0 = Floats ?g" by (simp add: one_pixel_store_def)
  have len: "length (concat ?g) = 784" using wf_one_pixel by (rule length_concat_wf)
  have run: "feed_store ?feed 0 (mem one_pixel_store)
         = Inr ((concat ?g, fst (?feed (concat ?g))),
                (mem one_pixel_store)\<lparr>contents := (contents (mem one_pixel_store))(0 := Floats ?w)\<rparr>)"
    using c len by (rule feed_store_spec)
  have "?w \<noteq> ?g"
  proof
    assume eq: "?w = ?g"
    have "?g ! 10 \<in> set ?g" by (rule nth_mem) (simp add: length_one_pixel rows_def)
    then have "?g ! 10 \<in> set ?w" using eq by simp
    then have "set (?g ! 10) \<subseteq> set (snd (?feed (concat ?g)))" by (rule set_unflatten)
    with one_pixel_has_value [of "1 :: real"] have "(1 :: real) \<in> set (map (\<lambda>_. 0) (concat ?g))"
      by auto
    then show False by auto
  qed
  then show ?thesis using run c by simp
qed

end
